theory Spec2Isabelle
  imports Complex_Main "HOL-Library.Word" "HOL-Library.Multiset"
begin

unbundle bit_operations_syntax

section \<open>The variant value representation of ArduinoJson\<close>

text \<open>
  A shallow embedding of \<^verbatim>\<open>src/ArduinoJson/Variant/VariantData.hpp\<close> and of the collection
  functions that follow it in the same source file (\<^verbatim>\<open>CollectionData::add\<close>,
  \<^verbatim>\<open>get\<close>, \<^verbatim>\<open>size\<close>, \<^verbatim>\<open>movePointers\<close>, \<^verbatim>\<open>objectEquals\<close>).

  A pointer is the integer value of its address and the null pointer is \<open>0\<close>. A cell
  (\<^verbatim>\<open>VariantData\<close>) is the pair of its payload union and its flag byte. Slots live in a
  slot memory, a function from addresses to slots, and every function that writes through
  a pointer takes the memory and returns the new one.
\<close>

subsection \<open>Data\<close>

type_synonym ptr = int

abbreviation nullptr :: ptr where
  "nullptr \<equiv> 0"

text \<open>
  The flag constants (\<^verbatim>\<open>VALUE_MASK\<close>, \<^verbatim>\<open>VALUE_IS_NULL\<close>, ...) are declared in
  \<^verbatim>\<open>VariantContent.hpp\<close>, which is not part of the source at hand. They are a parameter
  of every function that reads or writes the flag byte.
\<close>

record flag_values =
  VALUE_MASK :: "8 word"
  OWNED_VALUE_BIT :: "8 word"
  VALUE_IS_NULL :: "8 word"
  VALUE_IS_RAW_STRING :: "8 word"
  VALUE_IS_LINKED_STRING :: "8 word"
  VALUE_IS_OWNED_STRING :: "8 word"
  VALUE_IS_BOOLEAN :: "8 word"
  NUMBER_BIT :: "8 word"
  VALUE_IS_UNSIGNED_INTEGER :: "8 word"
  VALUE_IS_SIGNED_INTEGER :: "8 word"
  VALUE_IS_FLOAT :: "8 word"
  COLLECTION_MASK :: "8 word"
  VALUE_IS_OBJECT :: "8 word"
  VALUE_IS_ARRAY :: "8 word"
  OWNED_KEY_BIT :: "8 word"

text \<open>The ten kinds a cell can have, as the values of \<^verbatim>\<open>type()\<close>.\<close>

definition kinds :: "flag_values \<Rightarrow> 8 word list" where
  "kinds K =
     [VALUE_IS_NULL K, VALUE_IS_RAW_STRING K, VALUE_IS_LINKED_STRING K,
      VALUE_IS_OWNED_STRING K, VALUE_IS_BOOLEAN K, VALUE_IS_UNSIGNED_INTEGER K,
      VALUE_IS_SIGNED_INTEGER K, VALUE_IS_FLOAT K, VALUE_IS_OBJECT K, VALUE_IS_ARRAY K]"

text \<open>
  Modelled from the spec: \<^verbatim>\<open>VariantContent.hpp\<close> is missing, so the relations between
  the constants are taken from the data model of the specification: a cell has exactly one
  of ten kinds, read through the kind mask, and the flag that says the slot's key is owned
  is independent of the kind. The array and object kinds are recognised by a bit of their
  own (\<^verbatim>\<open>isArray\<close>, \<^verbatim>\<open>isObject\<close>) and together by the collection mask
  (\<^verbatim>\<open>isCollection\<close>); these tests must agree with the kind.
\<close>

definition flags_layout :: "flag_values \<Rightarrow> bool" where
  "flags_layout K \<longleftrightarrow>
     distinct (kinds K) \<and>
     list_all (\<lambda>t. t AND VALUE_MASK K = t) (kinds K) \<and>
     VALUE_MASK K AND OWNED_KEY_BIT K = 0 \<and>
     list_all (\<lambda>t. (t AND VALUE_IS_ARRAY K \<noteq> 0) = (t = VALUE_IS_ARRAY K)) (kinds K) \<and>
     list_all (\<lambda>t. (t AND VALUE_IS_OBJECT K \<noteq> 0) = (t = VALUE_IS_OBJECT K)) (kinds K) \<and>
     list_all (\<lambda>t. (t AND COLLECTION_MASK K \<noteq> 0) =
                    (t = VALUE_IS_ARRAY K \<or> t = VALUE_IS_OBJECT K)) (kinds K) \<and>
     COLLECTION_MASK K AND VALUE_MASK K = COLLECTION_MASK K"

text \<open>
  One assignment of values with this layout, the one of the library's header, for the
  evaluation of the functions on concrete cells.
\<close>

definition header_values :: flag_values where
  "header_values =
     \<lparr>VALUE_MASK = 0x7F, OWNED_VALUE_BIT = 0x01, VALUE_IS_NULL = 0x00,
      VALUE_IS_RAW_STRING = 0x03, VALUE_IS_LINKED_STRING = 0x04,
      VALUE_IS_OWNED_STRING = 0x05, VALUE_IS_BOOLEAN = 0x06, NUMBER_BIT = 0x08,
      VALUE_IS_UNSIGNED_INTEGER = 0x08, VALUE_IS_SIGNED_INTEGER = 0x0A,
      VALUE_IS_FLOAT = 0x0C, COLLECTION_MASK = 0x60, VALUE_IS_OBJECT = 0x20,
      VALUE_IS_ARRAY = 0x40, OWNED_KEY_BIT = 0x80\<rparr>"

text \<open>
  \<^verbatim>\<open>CollectionData\<close>: the head and the tail of a chain of slots.
\<close>

record CollectionData =
  head :: ptr
  tail :: ptr

text \<open>
  \<^verbatim>\<open>VariantContent\<close> is a union. Its members are fields here; the members that the code
  reads through one another share a field: \<^verbatim>\<open>asSignedInteger\<close> and
  \<^verbatim>\<open>asUnsignedInteger\<close> are the two readings of \<open>asInteger\<close> (\<open>sint\<close> and \<open>uint\<close>),
  \<^verbatim>\<open>asArray\<close> and \<^verbatim>\<open>asCollection\<close> are the same head and tail, and
  \<^verbatim>\<open>asLinkedString\<close> (a \<^verbatim>\<open>const char*\<close>) and \<^verbatim>\<open>asOwnedString\<close> (a
  \<^verbatim>\<open>StringNode*\<close>) are the two readings of the pointer \<open>asString\<close>. A float payload is
  the real number it denotes.
\<close>

record VariantContent =
  asFloat :: real
  asBoolean :: bool
  asInteger :: "64 word"
  asCollection :: CollectionData
  asString :: ptr

record VariantData =
  content :: VariantContent
  flags :: "8 word"

subsection \<open>Kind tests\<close>

definition type :: "flag_values \<Rightarrow> VariantData \<Rightarrow> 8 word" where
  "type K v = flags v AND VALUE_MASK K"

definition isArray :: "flag_values \<Rightarrow> VariantData \<Rightarrow> bool" where
  "isArray K v \<longleftrightarrow> flags v AND VALUE_IS_ARRAY K \<noteq> 0"

definition isBoolean :: "flag_values \<Rightarrow> VariantData \<Rightarrow> bool" where
  "isBoolean K v \<longleftrightarrow> type K v = VALUE_IS_BOOLEAN K"

definition isCollection :: "flag_values \<Rightarrow> VariantData \<Rightarrow> bool" where
  "isCollection K v \<longleftrightarrow> flags v AND COLLECTION_MASK K \<noteq> 0"

definition isFloat :: "flag_values \<Rightarrow> VariantData \<Rightarrow> bool" where
  "isFloat K v \<longleftrightarrow> flags v AND NUMBER_BIT K \<noteq> 0"

definition isNull :: "flag_values \<Rightarrow> VariantData \<Rightarrow> bool" where
  "isNull K v \<longleftrightarrow> type K v = VALUE_IS_NULL K"

definition isObject :: "flag_values \<Rightarrow> VariantData \<Rightarrow> bool" where
  "isObject K v \<longleftrightarrow> flags v AND VALUE_IS_OBJECT K \<noteq> 0"

definition isString :: "flag_values \<Rightarrow> VariantData \<Rightarrow> bool" where
  "isString K v \<longleftrightarrow>
     type K v = VALUE_IS_LINKED_STRING K \<or> type K v = VALUE_IS_OWNED_STRING K"

text \<open>
  \<^verbatim>\<open>asArray\<close>, \<^verbatim>\<open>asObject\<close> and \<^verbatim>\<open>asCollection\<close> return a pointer into the cell or
  null; here the collection found there, or \<open>None\<close>.
\<close>

definition asArray :: "flag_values \<Rightarrow> VariantData \<Rightarrow> CollectionData option" where
  "asArray K v = (if isArray K v then Some (asCollection (content v)) else None)"

definition asObject :: "flag_values \<Rightarrow> VariantData \<Rightarrow> CollectionData option" where
  "asObject K v = (if isObject K v then Some (asCollection (content v)) else None)"

definition VariantData_asCollection :: "flag_values \<Rightarrow> VariantData \<Rightarrow> CollectionData option" where
  "VariantData_asCollection K v =
     (if isCollection K v then Some (asCollection (content v)) else None)"

subsection \<open>Setters\<close>

definition setType :: "flag_values \<Rightarrow> 8 word \<Rightarrow> VariantData \<Rightarrow> VariantData" where
  "setType K t v = v\<lparr>flags := (flags v AND OWNED_KEY_BIT K) OR t\<rparr>"

definition setContent :: "(VariantContent \<Rightarrow> VariantContent) \<Rightarrow> VariantData \<Rightarrow> VariantData" where
  "setContent f v = v\<lparr>content := f (content v)\<rparr>"

definition reset :: "flag_values \<Rightarrow> VariantData \<Rightarrow> VariantData" where
  "reset K v = v\<lparr>flags := VALUE_IS_NULL K\<rparr>"





definition setNull :: "flag_values \<Rightarrow> VariantData \<Rightarrow> VariantData" where
  "setNull K v = setType K (VALUE_IS_NULL K) v"

definition setRawString :: "flag_values \<Rightarrow> ptr \<Rightarrow> VariantData \<Rightarrow> VariantData" where
  "setRawString K s v =
     setContent (\<lambda>c. c\<lparr>asString := s\<rparr>) (setType K (VALUE_IS_RAW_STRING K) v)"


definition setOwnedString :: "flag_values \<Rightarrow> ptr \<Rightarrow> VariantData \<Rightarrow> VariantData" where
  "setOwnedString K s v =
     setContent (\<lambda>c. c\<lparr>asString := s\<rparr>) (setType K (VALUE_IS_OWNED_STRING K) v)"

text \<open>\<^verbatim>\<open>CollectionData::clear\<close>; a newly constructed collection is in the same state.\<close>

definition CollectionData_clear :: "CollectionData \<Rightarrow> CollectionData" where
  "CollectionData_clear c = c\<lparr>head := nullptr, tail := nullptr\<rparr>"

definition empty_collection :: CollectionData where
  "empty_collection = \<lparr>head = nullptr, tail = nullptr\<rparr>"

definition toArray :: "flag_values \<Rightarrow> VariantData \<Rightarrow> VariantData" where
  "toArray K v =
     setContent (\<lambda>c. c\<lparr>asCollection := empty_collection\<rparr>) (setType K (VALUE_IS_ARRAY K) v)"

definition toObject :: "flag_values \<Rightarrow> VariantData \<Rightarrow> VariantData" where
  "toObject K v =
     setContent (\<lambda>c. c\<lparr>asCollection := empty_collection\<rparr>) (setType K (VALUE_IS_OBJECT K) v)"


subsection \<open>Coercing accessors\<close>

definition VariantData_asBoolean :: "flag_values \<Rightarrow> VariantData \<Rightarrow> bool" where
  "VariantData_asBoolean K v =
     (let t = type K v in
      if t = VALUE_IS_BOOLEAN K then asBoolean (content v)
      else if t = VALUE_IS_SIGNED_INTEGER K \<or> t = VALUE_IS_UNSIGNED_INTEGER K
        then asInteger (content v) \<noteq> 0
      else if t = VALUE_IS_FLOAT K then asFloat (content v) \<noteq> 0
      else if t = VALUE_IS_NULL K then False
      else True)"

subsection \<open>Concrete cells\<close>

definition zero_content :: VariantContent where
  "zero_content =
     \<lparr>asFloat = 0, asBoolean = False, asInteger = 0, asCollection = empty_collection,
      asString = nullptr\<rparr>"

text \<open>The cell made by the constructor \<^verbatim>\<open>VariantData()\<close>.\<close>

definition null_cell :: VariantData where
  "null_cell = \<lparr>content = zero_content, flags = VALUE_IS_NULL header_values\<rparr>"

text \<open>A linked string cell, a cell that holds \<^verbatim>\<open>true\<close>, and a null cell of a slot that owns its key.\<close>

definition string_cell :: VariantData where
  "string_cell = \<lparr>content = zero_content\<lparr>asString := 4096\<rparr>, flags = 0x04\<rparr>"

definition true_cell :: VariantData where
  "true_cell = \<lparr>content = zero_content\<lparr>asBoolean := True\<rparr>, flags = 0x06\<rparr>"

definition keyed_cell :: VariantData where
  "keyed_cell = \<lparr>content = zero_content, flags = 0x80\<rparr>"


subsection \<open>Rebasing\<close>

text \<open>
  Addresses are the numbers from 0 below \<open>2 ^ pointer_bits\<close>, and pointer arithmetic
  wraps around at the pointer width. The width and the test \<^verbatim>\<open>isAligned\<close>, which the
  source at hand calls but does not define, are parameters of the platform.
\<close>

record platform =
  pointer_bits :: nat
  isAligned :: "ptr \<Rightarrow> bool"

text \<open>
  \<^verbatim>\<open>movePointer\<close>: a null pointer stays null; any other pointer is moved by the offset,
  counted in bytes, modulo the size of the address space. The assertion
  \<^verbatim>\<open>ARDUINOJSON_ASSERT(isAligned(p))\<close> on the moved pointer is the result \<open>None\<close> when
  it fails. On a build without assertions \<^verbatim>\<open>isAligned\<close> is the test that always holds.
\<close>

definition movePointer :: "platform \<Rightarrow> ptr \<Rightarrow> int \<Rightarrow> ptr option" where
  "movePointer P p offset =
     (if p = nullptr then Some p
      else let q = (p + offset) mod 2 ^ pointer_bits P
           in if isAligned P q then Some q else None)"

text \<open>
  A document is a cell together with the documents of the slots chained from the head of
  its collection, in the order of the chain. The slots lie in the arena, which a
  compaction moves as a block before \<^verbatim>\<open>movePointers\<close> is called: the chain that starts
  at the moved head holds the cells of the chain that started at the old head.
\<close>

datatype document = Document VariantData "document list"

text \<open>
  \<^verbatim>\<open>VariantData::movePointers\<close> with \<^verbatim>\<open>CollectionData::movePointers\<close> in its collection
  branch: head and tail are moved first, then the loop runs from the moved head over the
  chain and rebases every child. A null moved head ends the loop before its first round.
  A failed assertion, in the cell or in one of its children, ends the run.
\<close>

fun VariantData_movePointers ::
  "platform \<Rightarrow> flag_values \<Rightarrow> int \<Rightarrow> document \<Rightarrow> document option" where
  "VariantData_movePointers P K variantDistance (Document v slots) =
     (if flags v AND COLLECTION_MASK K \<noteq> 0 then
        (case movePointer P (head (asCollection (content v))) variantDistance of
           None \<Rightarrow> None
         | Some h \<Rightarrow>
             (case movePointer P (tail (asCollection (content v))) variantDistance of
                None \<Rightarrow> None
              | Some t \<Rightarrow>
                  (let v' = setContent (\<lambda>u. u\<lparr>asCollection :=
                              (asCollection (content v))\<lparr>head := h, tail := t\<rparr>\<rparr>) v
                   in if h = nullptr then Some (Document v' slots)
                      else map_option (Document v')
                             (those (map (VariantData_movePointers P K variantDistance)
                                slots)))))
      else Some (Document v slots))"

text \<open>
  What makes \<open>d\<close> a relocation distance for a pointer: a pointer that is not null is an
  aligned address of the platform, and the compaction has moved what it points to to the
  address \<open>d\<close> bytes further, which is an aligned address again and so not the null
  address.
\<close>

definition relocates :: "platform \<Rightarrow> int \<Rightarrow> ptr \<Rightarrow> bool" where
  "relocates P d p \<longleftrightarrow>
     (p \<noteq> nullptr \<longrightarrow>
        0 < p \<and> p < 2 ^ pointer_bits P \<and> isAligned P p \<and>
        (p + d) mod 2 ^ pointer_bits P \<noteq> nullptr \<and>
        isAligned P ((p + d) mod 2 ^ pointer_bits P))"

text \<open>
  \<open>d\<close> is a relocation distance for a document: for the head and the tail of every
  collection in it whose slots the rebasing pass reaches.
\<close>

fun rebasable :: "platform \<Rightarrow> flag_values \<Rightarrow> int \<Rightarrow> document \<Rightarrow> bool" where
  "rebasable P K d (Document v slots) =
     (if flags v AND COLLECTION_MASK K \<noteq> 0 then
        relocates P d (head (asCollection (content v))) \<and>
        relocates P d (tail (asCollection (content v))) \<and>
        (head (asCollection (content v)) \<noteq> nullptr \<longrightarrow>
           (\<forall>s \<in> set slots. rebasable P K d s))
      else True)"

text \<open>
  A platform with pointers of 64 bits and slots aligned to 8 bytes, and an array at 4096
  that holds a null element and an object with one member.
\<close>

definition example_platform :: platform where
  "example_platform = \<lparr>pointer_bits = 64, isAligned = (\<lambda>p. p mod 8 = 0)\<rparr>"

definition collection_cell :: "8 word \<Rightarrow> ptr \<Rightarrow> ptr \<Rightarrow> VariantData" where
  "collection_cell t h l =
     \<lparr>content = zero_content\<lparr>asCollection := \<lparr>head = h, tail = l\<rparr>\<rparr>, flags = t\<rparr>"

definition nested_document :: document where
  "nested_document =
     Document (collection_cell 0x40 4096 4112)
       [Document null_cell [],
        Document (collection_cell 0x20 4128 4128) [Document true_cell []]]"

subsection \<open>Slots and collections\<close>

text \<open>
  Modelled from the spec: \<^verbatim>\<open>VariantSlot.hpp\<close> is missing. By the data model of the
  specification a slot pairs a value cell with a nullable key and a link to the next slot
  of its chain; \<^verbatim>\<open>data()\<close>, \<^verbatim>\<open>next()\<close> and \<^verbatim>\<open>key()\<close> read the three parts and
  \<^verbatim>\<open>setNextNotNull\<close> writes the link. The key is a pointer to its text.
\<close>

record VariantSlot =
  data :: VariantData
  next_slot :: ptr
  key :: ptr

type_synonym slot_memory = "ptr \<Rightarrow> VariantSlot"

definition setNextNotNull :: "ptr \<Rightarrow> VariantSlot \<Rightarrow> VariantSlot" where
  "setNextNotNull slot s = s\<lparr>next_slot := slot\<rparr>"

text \<open>
  \<^verbatim>\<open>CollectionData::add\<close>. The write \<^verbatim>\<open>tail_->setNextNotNull(slot)\<close> goes to the slot
  memory at the address of the old tail.
\<close>

definition CollectionData_add ::
  "ptr \<Rightarrow> CollectionData \<Rightarrow> slot_memory \<Rightarrow> CollectionData \<times> slot_memory" where
  "CollectionData_add slot c m =
     (if tail c \<noteq> nullptr then
        (c\<lparr>tail := slot\<rparr>, m(tail c := setNextNotNull slot (m (tail c))))
      else (c\<lparr>head := slot, tail := slot\<rparr>, m))"

text \<open>
  Modelled from the spec: \<^verbatim>\<open>slotSize\<close>, which \<^verbatim>\<open>CollectionData::size\<close> calls on the
  head, is missing; by the specification it counts the slots of the chain. The loop
  follows the links until it meets null, and on a chain that runs into a cycle it does not
  return.
\<close>

partial_function (option) slotSize_loop :: "slot_memory \<Rightarrow> ptr \<Rightarrow> nat \<Rightarrow> nat option" where
  "slotSize_loop m var n =
     (if var = nullptr then Some n else slotSize_loop m (next_slot (m var)) (n + 1))"

definition slotSize :: "slot_memory \<Rightarrow> ptr \<Rightarrow> nat option" where
  "slotSize m var = slotSize_loop m var 0"

definition CollectionData_size :: "slot_memory \<Rightarrow> CollectionData \<Rightarrow> nat option" where
  "CollectionData_size m c = slotSize m (head c)"

text \<open>
  The slots met from a pointer by following the links up to null, in order: the iteration
  order of \<^verbatim>\<open>for (s = head_; s; s = s->next())\<close>.
\<close>

fun slot_chain :: "slot_memory \<Rightarrow> ptr \<Rightarrow> ptr list \<Rightarrow> bool" where
  "slot_chain m p [] \<longleftrightarrow> p = nullptr"
| "slot_chain m p (a # as) \<longleftrightarrow> p = a \<and> a \<noteq> nullptr \<and> slot_chain m (next_slot (m a)) as"

text \<open>
  The invariant of a collection whose slots are \<open>xs\<close>: the chain from the head is \<open>xs\<close>,
  the tail is its last slot, and the head is null exactly when there is no slot.
\<close>

definition collection_invariant :: "slot_memory \<Rightarrow> CollectionData \<Rightarrow> ptr list \<Rightarrow> bool" where
  "collection_invariant m c xs \<longleftrightarrow>
     slot_chain m (head c) xs \<and>
     tail c = (if xs = [] then nullptr else last xs) \<and>
     (head c = nullptr \<longleftrightarrow> xs = [])"

text \<open>A slot as the arena hands it out: a null cell, no next slot, no key.\<close>

definition new_slot :: VariantSlot where
  "new_slot = \<lparr>data = null_cell, next_slot = nullptr, key = nullptr\<rparr>"

definition blank_memory :: slot_memory where
  "blank_memory = (\<lambda>_. new_slot)"

subsection \<open>Keys and lookup\<close>

text \<open>
  The text memory gives, for the address of a character, the text that starts there and
  runs up to the terminating zero.
\<close>

type_synonym text_memory = "ptr \<Rightarrow> string"

text \<open>
  Modelled from the spec: \<^verbatim>\<open>adaptString\<close> and \<^verbatim>\<open>stringEquals\<close> come from the missing
  string adapters. An adapted string is null or a text, and by the specification key
  lookup compares by exact content; a null string has no content and equals nothing.
\<close>

definition adaptString :: "text_memory \<Rightarrow> ptr \<Rightarrow> string option" where
  "adaptString T p = (if p = nullptr then None else Some (T p))"

definition stringEquals :: "string option \<Rightarrow> string option \<Rightarrow> bool" where
  "stringEquals s1 s2 \<longleftrightarrow> s1 \<noteq> None \<and> s1 = s2"

text \<open>
  \<^verbatim>\<open>CollectionData::get(key)\<close>: null for a null key, else the first slot of the chain
  whose key equals the key, or null when the chain ends before. \<open>None\<close> stands for a loop
  that does not end.
\<close>

partial_function (option) CollectionData_get_loop ::
  "text_memory \<Rightarrow> slot_memory \<Rightarrow> string option \<Rightarrow> ptr \<Rightarrow> ptr option" where
  "CollectionData_get_loop T m k slot =
     (if slot = nullptr then Some slot
      else if stringEquals k (adaptString T (key (m slot))) then Some slot
      else CollectionData_get_loop T m k (next_slot (m slot)))"

definition CollectionData_get ::
  "text_memory \<Rightarrow> slot_memory \<Rightarrow> CollectionData \<Rightarrow> string option \<Rightarrow> ptr option" where
  "CollectionData_get T m c k =
     (if k = None then Some nullptr else CollectionData_get_loop T m k (head c))"

subsection \<open>Equality of objects\<close>

text \<open>
  \<^verbatim>\<open>compare\<close> and its result type come from the missing \<^verbatim>\<open>VariantCompare.hpp\<close>. The
  comparison of two cells is a parameter; it reads the two cells and, for nested
  collections, the slot memory.
\<close>

datatype CompareResult =
  COMPARE_RESULT_DIFFER | COMPARE_RESULT_EQUAL | COMPARE_RESULT_GREATER | COMPARE_RESULT_LESS

type_synonym comparison = "slot_memory \<Rightarrow> VariantData \<Rightarrow> VariantData \<Rightarrow> CompareResult"

text \<open>
  \<^verbatim>\<open>objectEquals\<close>: the loop over the slots of the left operand, with the counter \<open>count\<close>, and
  the comparison of the counter with the size of the right operand after it.
\<close>

partial_function (option) objectEquals_loop ::
  "comparison \<Rightarrow> text_memory \<Rightarrow> slot_memory \<Rightarrow> CollectionData \<Rightarrow> ptr \<Rightarrow> nat \<Rightarrow> bool option"
  where
  "objectEquals_loop compare T m rhs a cnt =
     (if a = nullptr then
        Option.bind (CollectionData_size m rhs) (\<lambda>n. Some (cnt = n))
      else
        Option.bind (CollectionData_get T m rhs (adaptString T (key (m a)))) (\<lambda>b.
          if b = nullptr then Some False
          else if compare m (data (m a)) (data (m b)) \<noteq> COMPARE_RESULT_EQUAL then Some False
          else objectEquals_loop compare T m rhs (next_slot (m a)) (cnt + 1)))"

definition objectEquals ::
  "comparison \<Rightarrow> text_memory \<Rightarrow> slot_memory \<Rightarrow> CollectionData \<Rightarrow> CollectionData \<Rightarrow> bool option"
  where
  "objectEquals compare T m lhs rhs = objectEquals_loop compare T m rhs (head lhs) 0"

text \<open>
  The members of a chain as the pairs of key text and cell, and the first slot of a chain
  with a given key.
\<close>

definition key_text :: "text_memory \<Rightarrow> slot_memory \<Rightarrow> ptr \<Rightarrow> string option" where
  "key_text T m a = adaptString T (key (m a))"

definition slot_member ::
  "text_memory \<Rightarrow> slot_memory \<Rightarrow> ptr \<Rightarrow> string option \<times> VariantData" where
  "slot_member T m a = (key_text T m a, data (m a))"

definition first_match :: "text_memory \<Rightarrow> slot_memory \<Rightarrow> string option \<Rightarrow> ptr list \<Rightarrow> ptr option" where
  "first_match T m k ys = List.find (\<lambda>b. stringEquals k (key_text T m b)) ys"

text \<open>
  What the specification says of two objects with the slots \<open>xs\<close> and \<open>ys\<close>: every key
  of the left is found in the right, at its first match, with an equal value, and the
  numbers of members agree.
\<close>

definition members_agree ::
  "comparison \<Rightarrow> text_memory \<Rightarrow> slot_memory \<Rightarrow> ptr list \<Rightarrow> ptr list \<Rightarrow> bool" where
  "members_agree compare T m xs ys \<longleftrightarrow>
     list_all (\<lambda>a. case first_match T m (key_text T m a) ys of
                      None \<Rightarrow> False
                    | Some b \<Rightarrow> compare m (data (m a)) (data (m b)) = COMPARE_RESULT_EQUAL) xs \<and>
     length ys = length xs"

text \<open>An object, seen from the right operand of a comparison: each of its slots has a key.\<close>

definition has_keys :: "slot_memory \<Rightarrow> ptr list \<Rightarrow> bool" where
  "has_keys m ys = list_all (\<lambda>b. key (m b) \<noteq> nullptr) ys"

text \<open>
  Example objects with integer values: \<open>{"x":1,"y":2}\<close> at 4096, \<open>{"y":2,"x":1}\<close> at
  4128, \<open>{"x":1}\<close> at 4160, \<open>{"x":1,"y":2,"z":3}\<close> at 4176 and, with the key twice,
  \<open>{"x":1,"x":1}\<close> at 4224. The comparison of the examples calls two cells equal when
  their integer payloads are.
\<close>

definition example_text :: text_memory where
  "example_text =
     (\<lambda>p. if p = 100 then ''x'' else if p = 200 then ''y'' else if p = 300 then ''z'' else [])"

definition integer_cell :: "64 word \<Rightarrow> VariantData" where
  "integer_cell i = \<lparr>content = zero_content\<lparr>asInteger := i\<rparr>, flags = 0x0A\<rparr>"

definition member_slot :: "ptr \<Rightarrow> 64 word \<Rightarrow> ptr \<Rightarrow> VariantSlot" where
  "member_slot k i n = \<lparr>data = integer_cell i, next_slot = n, key = k\<rparr>"

definition example_memory :: slot_memory where
  "example_memory = blank_memory
     (4096 := member_slot 100 1 4112, 4112 := member_slot 200 2 nullptr,
      4128 := member_slot 200 2 4144, 4144 := member_slot 100 1 nullptr,
      4160 := member_slot 100 1 nullptr,
      4176 := member_slot 100 1 4192, 4192 := member_slot 200 2 4208,
      4208 := member_slot 300 3 nullptr,
      4224 := member_slot 100 1 4240, 4240 := member_slot 100 1 nullptr)"

definition integer_compare :: comparison where
  "integer_compare m u v =
     (if asInteger (content u) = asInteger (content v) then COMPARE_RESULT_EQUAL
      else COMPARE_RESULT_DIFFER)"

definition object_at :: "ptr \<Rightarrow> ptr \<Rightarrow> CollectionData" where
  "object_at h t = \<lparr>head = h, tail = t\<rparr>"

subsection \<open>The arena and the other collaborators\<close>

text \<open>
  The state that the operations below work on: the slot memory, the text memory, and the
  state of the resource manager, which is kept abstract.
\<close>

record 'r store =
  slot_mem :: slot_memory
  text_mem :: text_memory
  resources :: 'r

text \<open>
  The functions that \<^verbatim>\<open>VariantData.hpp\<close> calls and that are not part of the source at
  hand are parameters: the methods of \<^verbatim>\<open>ResourceManager\<close> (\<^verbatim>\<open>allocVariant\<close>,
  \<^verbatim>\<open>saveString\<close>, \<^verbatim>\<open>dereferenceString\<close>), the functions \<^verbatim>\<open>slotRelease\<close> and
  \<^verbatim>\<open>collectionCopy\<close> that the file only declares, \<^verbatim>\<open>ArrayData::copyFrom\<close>, and the
  offset of the member \<^verbatim>\<open>data\<close> in a \<^verbatim>\<open>StringNode\<close>. An allocation that fails
  returns null. A function that loops over slots has an optional result, \<open>None\<close> when it
  does not return.
\<close>

record 'r externals =
  allocVariant :: "'r store \<Rightarrow> ptr \<times> 'r store"
  saveString :: "string \<Rightarrow> 'r store \<Rightarrow> ptr \<times> 'r store"
  dereferenceString :: "ptr \<Rightarrow> 'r store \<Rightarrow> 'r store"
  slotRelease :: "ptr \<Rightarrow> 'r store \<Rightarrow> 'r store option"
  collectionCopy ::
    "CollectionData \<Rightarrow> CollectionData \<Rightarrow> 'r store \<Rightarrow> (bool \<times> CollectionData \<times> 'r store) option"
  ArrayData_copyFrom ::
    "CollectionData \<Rightarrow> CollectionData \<Rightarrow> 'r store \<Rightarrow> (bool \<times> CollectionData \<times> 'r store) option"
  data_offset :: int

subsection \<open>Adding elements and members\<close>

text \<open>Writing a collection back into the cell that holds it.\<close>

definition with_collection :: "CollectionData \<Rightarrow> VariantData \<Rightarrow> VariantData" where
  "with_collection c v = setContent (\<lambda>u. u\<lparr>asCollection := c\<rparr>) v"

text \<open>
  Modelled from the spec: \<^verbatim>\<open>ArrayData::addElement(array, resources)\<close> is missing. By
  sections 4.1 and 7 of the specification it fails on a null array, returning a null
  reference without an allocation; otherwise it takes a slot from the arena, fails with a
  null reference when there is none, and else appends the slot with
  \<^verbatim>\<open>CollectionData::add\<close> and returns its cell. The cell of a slot has the address of
  the slot.
\<close>

definition ArrayData_addElement ::
  "'r externals \<Rightarrow> CollectionData option \<Rightarrow> 'r store \<Rightarrow> ptr \<times> CollectionData option \<times> 'r store"
  where
  "ArrayData_addElement X array s =
     (case array of
        None \<Rightarrow> (nullptr, None, s)
      | Some c \<Rightarrow>
          (let (slot, s1) = allocVariant X s in
           if slot = nullptr then (nullptr, Some c, s1)
           else let (c', m') = CollectionData_add slot c (slot_mem s1)
                in (slot, Some c', s1\<lparr>slot_mem := m'\<rparr>)))"

text \<open>
  \<^verbatim>\<open>VariantData::addElement\<close>. The pointer \<^verbatim>\<open>array\<close> points into the cell, so what the
  callee does to the collection is done to the cell.
\<close>

definition VariantData_addElement ::
  "'r externals \<Rightarrow> flag_values \<Rightarrow> VariantData \<Rightarrow> 'r store \<Rightarrow> ptr \<times> VariantData \<times> 'r store"
  where
  "VariantData_addElement X K v s =
     (let v1 = (if isNull K v then toArray K v else v);
          array = (if isNull K v then Some (asCollection (content v1)) else asArray K v);
          (p, array', s') = ArrayData_addElement X array s
      in (p, (case array' of None \<Rightarrow> v1 | Some c \<Rightarrow> with_collection c v1), s'))"

text \<open>
  \<^verbatim>\<open>VariantData::getOrAddMember\<close>. The key is an adapted string, null or a text. The
  missing \<^verbatim>\<open>CollectionData::getOrAddMember\<close> is the parameter \<open>member_of\<close>.
\<close>

definition VariantData_getOrAddMember ::
  "(string \<Rightarrow> CollectionData \<Rightarrow> 'r store \<Rightarrow> (ptr \<times> CollectionData \<times> 'r store) option) \<Rightarrow>
   flag_values \<Rightarrow> string option \<Rightarrow> VariantData \<Rightarrow> 'r store \<Rightarrow>
   (ptr \<times> VariantData \<times> 'r store) option" where
  "VariantData_getOrAddMember member_of K k v s =
     (case k of
        None \<Rightarrow> Some (nullptr, v, s)
      | Some text \<Rightarrow>
          (let v1 = (if isNull K v then toObject K v else v);
               obj = (if isNull K v then Some (asCollection (content v1)) else asObject K v)
           in case obj of
                None \<Rightarrow> Some (nullptr, v1, s)
              | Some c \<Rightarrow>
                  map_option (\<lambda>(p, c', s'). (p, with_collection c' v1, s'))
                    (member_of text c s)))"

text \<open>
  Modelled from the spec: \<^verbatim>\<open>CollectionData::getOrAddMember\<close> is missing. By section 4.1
  a key that exists returns the existing cell, found by \<^verbatim>\<open>get\<close>; otherwise a new slot
  is appended, with the key text saved in the arena and the owned-key bit set. It fails
  with a null reference when the arena has no slot or no room for the key.
\<close>

definition CollectionData_getOrAddMember ::
  "'r externals \<Rightarrow> flag_values \<Rightarrow> string \<Rightarrow> CollectionData \<Rightarrow> 'r store \<Rightarrow>
   (ptr \<times> CollectionData \<times> 'r store) option" where
  "CollectionData_getOrAddMember X K text c s =
     Option.bind (CollectionData_get (text_mem s) (slot_mem s) c (Some text)) (\<lambda>found.
       if found \<noteq> nullptr then Some (found, c, s)
       else
         let (slot, s1) = allocVariant X s in
         if slot = nullptr then Some (nullptr, c, s1)
         else
           let (k, s2) = saveString X text s1 in
           if k = nullptr then Some (nullptr, c, s2)
           else
             let old = slot_mem s2 slot;
                 keyed = old\<lparr>key := k,
                   data := (data old)\<lparr>flags := flags (data old) OR OWNED_KEY_BIT K\<rparr>\<rparr>;
                 (c', m') = CollectionData_add slot c ((slot_mem s2)(slot := keyed))
             in Some (slot, c', s2\<lparr>slot_mem := m'\<rparr>))"

subsection \<open>Release and copy\<close>

text \<open>
  \<^verbatim>\<open>VariantData::release\<close>: the loop over the slots of the collection, which reads the
  link of a slot after the slot has been released, and the function itself.
\<close>

partial_function (option) release_loop ::
  "'r externals \<Rightarrow> ptr \<Rightarrow> 'r store \<Rightarrow> 'r store option" where
  "release_loop X slot s =
     (if slot = nullptr then Some s
      else Option.bind (slotRelease X slot s)
             (\<lambda>s'. release_loop X (next_slot (slot_mem s' slot)) s'))"

definition release :: "'r externals \<Rightarrow> flag_values \<Rightarrow> VariantData \<Rightarrow> 'r store \<Rightarrow> 'r store option" where
  "release X K v s =
     (let s1 = (if flags v AND OWNED_VALUE_BIT K \<noteq> 0
                then dereferenceString X (asString (content v) + data_offset X) s else s)
      in case VariantData_asCollection K v of
           None \<Rightarrow> Some s1
         | Some c \<Rightarrow> release_loop X (head c) s1)"

text \<open>
  \<^verbatim>\<open>VariantData::copyFrom\<close>; the source is a pointer, \<open>None\<close> when null. The text of an
  owned or raw string is read at the member \<^verbatim>\<open>data\<close> of its node. A dereference of a
  null \<^verbatim>\<open>asArray()\<close> or \<^verbatim>\<open>asObject()\<close> has no result.
\<close>

definition VariantData_copyFrom ::
  "'r externals \<Rightarrow> flag_values \<Rightarrow> VariantData option \<Rightarrow> VariantData \<Rightarrow> 'r store \<Rightarrow>
   (bool \<times> VariantData \<times> 'r store) option" where
  "VariantData_copyFrom X K src v s =
     Option.bind (release X K v s) (\<lambda>s1.
       case src of
         None \<Rightarrow> Some (True, setNull K v, s1)
       | Some sv \<Rightarrow>
           if type K sv = VALUE_IS_ARRAY K then
             (let v1 = toArray K v in
              Option.bind (asArray K sv) (\<lambda>a.
                map_option (\<lambda>(ok, c, s2). (ok, with_collection c v1, s2))
                  (ArrayData_copyFrom X (asCollection (content v1)) a s1)))
           else if type K sv = VALUE_IS_OBJECT K then
             (let v1 = toObject K v in
              Option.bind (asObject K sv) (\<lambda>a.
                map_option (\<lambda>(ok, c, s2). (ok, with_collection c v1, s2))
                  (collectionCopy X (asCollection (content v1)) a s1)))
           else if type K sv = VALUE_IS_OWNED_STRING K then
             (let (dup, s2) =
                saveString X (text_mem s1 (asString (content sv) + data_offset X)) s1
              in if dup = nullptr then Some (False, v, s2)
                 else Some (True, setOwnedString K dup v, s2))
           else if type K sv = VALUE_IS_RAW_STRING K then
             (let (dup, s2) =
                saveString X (text_mem s1 (asString (content sv) + data_offset X)) s1
              in if dup = nullptr then Some (False, v, s2)
                 else Some (True, setRawString K dup v, s2))
           else Some (True, v\<lparr>content := content sv, flags := flags sv\<rparr>, s1))"

text \<open>\<^verbatim>\<open>variantCopyFrom\<close>: the destination is a pointer as well.\<close>

definition variantCopyFrom ::
  "'r externals \<Rightarrow> flag_values \<Rightarrow> VariantData option \<Rightarrow> VariantData option \<Rightarrow> 'r store \<Rightarrow>
   (bool \<times> VariantData option \<times> 'r store) option" where
  "variantCopyFrom X K dst src s =
     (case dst of
        None \<Rightarrow> Some (False, None, s)
      | Some v \<Rightarrow>
          map_option (\<lambda>(ok, v', s'). (ok, Some v', s')) (VariantData_copyFrom X K src v s))"

text \<open>
  The slots of a list released one after the other, each in the state in which the
  release of the slots before it has left the arena: what the loop of \<^verbatim>\<open>release\<close> is
  compared with.
\<close>

fun release_slots :: "'r externals \<Rightarrow> ptr list \<Rightarrow> 'r store \<Rightarrow> 'r store option" where
  "release_slots X [] s = Some s"
| "release_slots X (a # as) s = Option.bind (slotRelease X a s) (release_slots X as)"

text \<open>
  During such a run over the slots of a chain, every call of \<^verbatim>\<open>slotRelease\<close> that
  returns leaves the links of the released slot and of the slots still to come as they
  are. Nothing is asked of \<^verbatim>\<open>slotRelease\<close> on other slots or in other states, nor that
  it returns.
\<close>

fun links_kept :: "'r externals \<Rightarrow> ptr list \<Rightarrow> 'r store \<Rightarrow> bool" where
  "links_kept X [] s = True"
| "links_kept X (a # as) s =
     (case slotRelease X a s of
        None \<Rightarrow> True
      | Some s' \<Rightarrow>
          (\<forall>b \<in> set (a # as). next_slot (slot_mem s' b) = next_slot (slot_mem s b)) \<and>
          links_kept X as s')"

subsection \<open>Reading a cell as a number\<close>

text \<open>
  The conversions to the result type \<^verbatim>\<open>T\<close> come from the missing number headers
  (\<^verbatim>\<open>parseNumber\<close>, \<^verbatim>\<open>convertNumber\<close>) and from the language (\<^verbatim>\<open>static_cast\<close>); they
  are parameters, one record for each result type and each of the two accessors.
\<close>

record 't conversions =
  parseNumber :: "string \<Rightarrow> 't"
  of_boolean :: "bool \<Rightarrow> 't"
  of_unsigned :: "64 word \<Rightarrow> 't"
  of_signed :: "64 word \<Rightarrow> 't"
  of_float :: "real \<Rightarrow> 't"
  zero_value :: 't

text \<open>
  \<^verbatim>\<open>asFloat\<close> and \<^verbatim>\<open>asIntegral\<close>, with the text memory \<open>T\<close> and the offset \<open>off\<close> of
  \<^verbatim>\<open>data\<close> in a \<^verbatim>\<open>StringNode\<close>. \<^verbatim>\<open>content_.asOwnedString->data\<close> is the text at the
  string pointer plus the offset, \<^verbatim>\<open>content_.asLinkedString\<close> the text at the string
  pointer. In \<^verbatim>\<open>asFloat\<close> the two string kinds share one branch.
\<close>

definition VariantData_asFloat ::
  "'t conversions \<Rightarrow> flag_values \<Rightarrow> text_memory \<Rightarrow> int \<Rightarrow> VariantData \<Rightarrow> 't" where
  "VariantData_asFloat N K T off v =
     (let t = type K v in
      if t = VALUE_IS_BOOLEAN K then of_boolean N (asBoolean (content v))
      else if t = VALUE_IS_UNSIGNED_INTEGER K then of_unsigned N (asInteger (content v))
      else if t = VALUE_IS_SIGNED_INTEGER K then of_signed N (asInteger (content v))
      else if t = VALUE_IS_LINKED_STRING K \<or> t = VALUE_IS_OWNED_STRING K
        then parseNumber N (T (asString (content v) + off))
      else if t = VALUE_IS_FLOAT K then of_float N (asFloat (content v))
      else zero_value N)"

definition VariantData_asIntegral ::
  "'t conversions \<Rightarrow> flag_values \<Rightarrow> text_memory \<Rightarrow> int \<Rightarrow> VariantData \<Rightarrow> 't" where
  "VariantData_asIntegral N K T off v =
     (let t = type K v in
      if t = VALUE_IS_BOOLEAN K then of_boolean N (asBoolean (content v))
      else if t = VALUE_IS_UNSIGNED_INTEGER K then of_unsigned N (asInteger (content v))
      else if t = VALUE_IS_SIGNED_INTEGER K then of_signed N (asInteger (content v))
      else if t = VALUE_IS_LINKED_STRING K then parseNumber N (T (asString (content v)))
      else if t = VALUE_IS_OWNED_STRING K then parseNumber N (T (asString (content v) + off))
      else if t = VALUE_IS_FLOAT K then of_float N (asFloat (content v))
      else zero_value N)"

subsection \<open>An example arena\<close>

text \<open>
  An arena for the evaluation of the operations on concrete cells: slots are handed out
  in sequence, 16 bytes apart, as long as some are left, and texts are saved one after
  the other without sharing. Releasing a slot makes its cell null. Collections cannot be
  copied in this arena, and a \<^verbatim>\<open>StringNode\<close> has its characters 8 bytes after its start.
\<close>

record bump =
  free_slot :: ptr
  slots_left :: nat
  free_text :: ptr

definition example_allocVariant :: "bump store \<Rightarrow> ptr \<times> bump store" where
  "example_allocVariant s =
     (let r = resources s in
      if slots_left r = 0 then (nullptr, s)
      else (free_slot r,
            s\<lparr>slot_mem := (slot_mem s)(free_slot r := new_slot),
              resources := r\<lparr>free_slot := free_slot r + 16, slots_left := slots_left r - 1\<rparr>\<rparr>))"

definition example_saveString :: "string \<Rightarrow> bump store \<Rightarrow> ptr \<times> bump store" where
  "example_saveString text s =
     (let r = resources s in
      (free_text r,
       s\<lparr>text_mem := (text_mem s)(free_text r := text),
         resources := r\<lparr>free_text := free_text r + int (length text) + 9\<rparr>\<rparr>))"

definition example_slotRelease :: "ptr \<Rightarrow> bump store \<Rightarrow> bump store option" where
  "example_slotRelease slot s =
     Some (s\<lparr>slot_mem := (slot_mem s)
        (slot := (slot_mem s slot)\<lparr>data := setNull header_values (data (slot_mem s slot))\<rparr>)\<rparr>)"

definition example_arena :: "bump externals" where
  "example_arena =
     \<lparr>allocVariant = example_allocVariant,
      saveString = example_saveString,
      dereferenceString = (\<lambda>p s. s),
      slotRelease = example_slotRelease,
      collectionCopy = (\<lambda>dst src s. Some (False, dst, s)),
      ArrayData_copyFrom = (\<lambda>dst src s. Some (False, dst, s)),
      data_offset = 8\<rparr>"

definition example_store :: "bump store" where
  "example_store =
     \<lparr>slot_mem = example_memory, text_mem = example_text,
      resources = \<lparr>free_slot = 8192, slots_left = 4, free_text = 16384\<rparr>\<rparr>"

text \<open>
  A linked string cell whose text is \<open>1234567890\<close> at address 20480, and a reading of
  numbers for the examples: the value of the decimal digits at the start of the text.
\<close>

definition digits_text :: text_memory where
  "digits_text = (\<lambda>p. if p = 20480 then ''1234567890'' else if p = 20488 then ''90'' else [])"

definition digits_cell :: VariantData where
  "digits_cell = \<lparr>content = zero_content\<lparr>asString := 20480\<rparr>, flags = 0x04\<rparr>"

fun digits_value :: "int \<Rightarrow> string \<Rightarrow> int" where
  "digits_value acc [] = acc"
| "digits_value acc (c # cs) =
     (if 48 \<le> (of_char c :: nat) \<and> (of_char c :: nat) \<le> 57
      then digits_value (10 * acc + int (of_char c) - 48) cs else acc)"

definition example_numbers :: "int conversions" where
  "example_numbers =
     \<lparr>parseNumber = digits_value 0, of_boolean = (\<lambda>b. if b then 1 else 0),
      of_unsigned = uint, of_signed = sint, of_float = floor, zero_value = 0\<rparr>"

text \<open>A cell that owns its string, the node at address 16384.\<close>

definition owned_cell :: VariantData where
  "owned_cell = \<lparr>content = zero_content\<lparr>asString := 16384\<rparr>, flags = 0x05\<rparr>"

section \<open>Properties\<close>

subsection \<open>The flag byte\<close>

lemma flags_layout_header_values: "flags_layout header_values"
  by (simp add: flags_layout_def kinds_def header_values_def)


lemma type_setType:
  assumes "flags_layout K" and "t \<in> set (kinds K)"
  shows "type K (setType K t v) = t"
proof -
  from assms have t: "t AND VALUE_MASK K = t"
    by (auto simp: flags_layout_def list_all_iff)
  from assms(1) have "OWNED_KEY_BIT K AND VALUE_MASK K = 0"
    by (simp add: flags_layout_def and.commute)
  then have "(flags v AND OWNED_KEY_BIT K) AND VALUE_MASK K = 0"
    by (simp add: and.assoc)
  with t show ?thesis
    by (simp add: type_def setType_def bit.conj_disj_distrib2)
qed

lemma kinds_switch_distinct:
  assumes "flags_layout K"
  shows "distinct (kinds K)"
  using assms by (simp add: flags_layout_def)

subsection \<open>Assignment and type changes keep the owned-key bit\<close>






lemma flags_setContent [simp]: "flags (setContent f v) = flags v"
  by (simp add: setContent_def)

lemma content_setType [simp]: "content (setType K t v) = content v"
  by (simp add: setType_def)

lemma kinds_mem:
  "VALUE_IS_NULL K \<in> set (kinds K)" "VALUE_IS_RAW_STRING K \<in> set (kinds K)"
  "VALUE_IS_LINKED_STRING K \<in> set (kinds K)" "VALUE_IS_OWNED_STRING K \<in> set (kinds K)"
  "VALUE_IS_BOOLEAN K \<in> set (kinds K)" "VALUE_IS_UNSIGNED_INTEGER K \<in> set (kinds K)"
  "VALUE_IS_SIGNED_INTEGER K \<in> set (kinds K)" "VALUE_IS_FLOAT K \<in> set (kinds K)"
  "VALUE_IS_OBJECT K \<in> set (kinds K)" "VALUE_IS_ARRAY K \<in> set (kinds K)"
  by (simp_all add: kinds_def)




subsection \<open>Reading a cell as a boolean\<close>

lemma asBoolean_cases:
  assumes "flags_layout K"
  shows "type K v = VALUE_IS_NULL K \<Longrightarrow> VariantData_asBoolean K v = False"
    and "type K v = VALUE_IS_BOOLEAN K \<Longrightarrow> VariantData_asBoolean K v = asBoolean (content v)"
    and "type K v = VALUE_IS_SIGNED_INTEGER K \<Longrightarrow>
          VariantData_asBoolean K v = (asInteger (content v) \<noteq> 0)"
    and "type K v = VALUE_IS_UNSIGNED_INTEGER K \<Longrightarrow>
          VariantData_asBoolean K v = (asInteger (content v) \<noteq> 0)"
    and "type K v = VALUE_IS_FLOAT K \<Longrightarrow> VariantData_asBoolean K v = (asFloat (content v) \<noteq> 0)"
    and "type K v = VALUE_IS_LINKED_STRING K \<Longrightarrow> VariantData_asBoolean K v = True"
    and "type K v = VALUE_IS_OWNED_STRING K \<Longrightarrow> VariantData_asBoolean K v = True"
    and "type K v = VALUE_IS_RAW_STRING K \<Longrightarrow> VariantData_asBoolean K v = True"
    and "type K v = VALUE_IS_ARRAY K \<Longrightarrow> VariantData_asBoolean K v = True"
    and "type K v = VALUE_IS_OBJECT K \<Longrightarrow> VariantData_asBoolean K v = True"
proof -
  from assms have "distinct (kinds K)"
    by (rule kinds_switch_distinct)
  then have ne: "VALUE_IS_NULL K \<noteq> VALUE_IS_BOOLEAN K"
    "VALUE_IS_NULL K \<noteq> VALUE_IS_SIGNED_INTEGER K"
    "VALUE_IS_NULL K \<noteq> VALUE_IS_UNSIGNED_INTEGER K"
    "VALUE_IS_NULL K \<noteq> VALUE_IS_FLOAT K"
    "VALUE_IS_SIGNED_INTEGER K \<noteq> VALUE_IS_BOOLEAN K"
    "VALUE_IS_UNSIGNED_INTEGER K \<noteq> VALUE_IS_BOOLEAN K"
    "VALUE_IS_FLOAT K \<noteq> VALUE_IS_BOOLEAN K"
    "VALUE_IS_FLOAT K \<noteq> VALUE_IS_SIGNED_INTEGER K"
    "VALUE_IS_FLOAT K \<noteq> VALUE_IS_UNSIGNED_INTEGER K"
    and other: "t \<in> {VALUE_IS_LINKED_STRING K, VALUE_IS_OWNED_STRING K, VALUE_IS_RAW_STRING K,
        VALUE_IS_ARRAY K, VALUE_IS_OBJECT K} \<Longrightarrow>
      t \<noteq> VALUE_IS_BOOLEAN K \<and> t \<noteq> VALUE_IS_SIGNED_INTEGER K \<and>
      t \<noteq> VALUE_IS_UNSIGNED_INTEGER K \<and> t \<noteq> VALUE_IS_FLOAT K \<and> t \<noteq> VALUE_IS_NULL K" for t
    by (auto simp: kinds_def)
  show "type K v = VALUE_IS_NULL K \<Longrightarrow> VariantData_asBoolean K v = False"
    using ne by (simp add: VariantData_asBoolean_def)
  show "type K v = VALUE_IS_BOOLEAN K \<Longrightarrow> VariantData_asBoolean K v = asBoolean (content v)"
    by (simp add: VariantData_asBoolean_def)
  show "type K v = VALUE_IS_SIGNED_INTEGER K \<Longrightarrow>
          VariantData_asBoolean K v = (asInteger (content v) \<noteq> 0)"
    using ne by (simp add: VariantData_asBoolean_def)
  show "type K v = VALUE_IS_UNSIGNED_INTEGER K \<Longrightarrow>
          VariantData_asBoolean K v = (asInteger (content v) \<noteq> 0)"
    using ne by (simp add: VariantData_asBoolean_def)
  show "type K v = VALUE_IS_FLOAT K \<Longrightarrow> VariantData_asBoolean K v = (asFloat (content v) \<noteq> 0)"
    using ne by (simp add: VariantData_asBoolean_def)
  show "type K v = VALUE_IS_LINKED_STRING K \<Longrightarrow> VariantData_asBoolean K v = True"
    using other [of "VALUE_IS_LINKED_STRING K"] by (simp add: VariantData_asBoolean_def)
  show "type K v = VALUE_IS_OWNED_STRING K \<Longrightarrow> VariantData_asBoolean K v = True"
    using other [of "VALUE_IS_OWNED_STRING K"] by (simp add: VariantData_asBoolean_def)
  show "type K v = VALUE_IS_RAW_STRING K \<Longrightarrow> VariantData_asBoolean K v = True"
    using other [of "VALUE_IS_RAW_STRING K"] by (simp add: VariantData_asBoolean_def)
  show "type K v = VALUE_IS_ARRAY K \<Longrightarrow> VariantData_asBoolean K v = True"
    using other [of "VALUE_IS_ARRAY K"] by (simp add: VariantData_asBoolean_def)
  show "type K v = VALUE_IS_OBJECT K \<Longrightarrow> VariantData_asBoolean K v = True"
    using other [of "VALUE_IS_OBJECT K"] by (simp add: VariantData_asBoolean_def)
qed

text \<open>
  C6, as the code has it. \<^verbatim>\<open>asBoolean\<close> is a total function. It is false on a Null
  cell, the stored flag on a Boolean cell, and on a numeric cell whether the stored number
  is not zero. On every other kind (linked, owned and raw strings, arrays, objects) it is
  true: the \<^verbatim>\<open>default\<close> branch of the switch returns \<^verbatim>\<open>true\<close>.
\<close>

theorem asBoolean_by_kind:
  assumes "flags_layout K"
  shows "(isNull K v \<longrightarrow> VariantData_asBoolean K v = False) \<and>
     (isBoolean K v \<longrightarrow> VariantData_asBoolean K v = asBoolean (content v)) \<and>
     (type K v = VALUE_IS_SIGNED_INTEGER K \<or> type K v = VALUE_IS_UNSIGNED_INTEGER K \<longrightarrow>
        VariantData_asBoolean K v = (asInteger (content v) \<noteq> 0)) \<and>
     (type K v = VALUE_IS_FLOAT K \<longrightarrow> VariantData_asBoolean K v = (asFloat (content v) \<noteq> 0)) \<and>
     (isString K v \<or> type K v = VALUE_IS_RAW_STRING K \<or> type K v = VALUE_IS_ARRAY K \<or>
      type K v = VALUE_IS_OBJECT K \<longrightarrow> VariantData_asBoolean K v = True)"
  unfolding isNull_def isBoolean_def isString_def
  using asBoolean_cases [OF assms, of v] by blast

theorem asBoolean_by_kind_witness:
  "flags_layout header_values \<and> isString header_values string_cell \<and>
   VariantData_asBoolean header_values string_cell = True \<and>
   isNull header_values null_cell \<and> VariantData_asBoolean header_values null_cell = False"
proof -
  have h: "flags_layout header_values"
    by (rule flags_layout_header_values)
  have s: "isString header_values string_cell"
    by (simp add: isString_def type_def header_values_def string_cell_def)
  have n: "isNull header_values null_cell"
    by (simp add: isNull_def type_def header_values_def null_cell_def)
  from asBoolean_by_kind [OF h, of string_cell] s
  have c1: "VariantData_asBoolean header_values string_cell = True"
    by (elim conjE) simp
  from asBoolean_by_kind [OF h, of null_cell] n
  have c2: "VariantData_asBoolean header_values null_cell = False"
    by (elim conjE) simp
  from h s c1 n c2 show ?thesis
    by (intro conjI)
qed

theorem asBoolean_string_counterexample:
  "\<not> (isString header_values string_cell \<longrightarrow>
       VariantData_asBoolean header_values string_cell = False)"
  by (simp add: isString_def VariantData_asBoolean_def type_def header_values_def
      string_cell_def)

subsection \<open>Rebasing there and back\<close>

lemma movePointer_there:
  assumes "relocates P d p" and "p \<noteq> nullptr"
  shows "movePointer P p d = Some ((p + d) mod 2 ^ pointer_bits P)"
  using assms by (simp add: movePointer_def relocates_def)

lemma movePointer_back:
  assumes "relocates P d p" and "p \<noteq> nullptr"
  shows "movePointer P ((p + d) mod 2 ^ pointer_bits P) (- d) = Some p"
proof -
  from assms have r: "0 < p" "p < 2 ^ pointer_bits P" "isAligned P p"
    "(p + d) mod 2 ^ pointer_bits P \<noteq> 0"
    by (simp_all add: relocates_def)
  have "((p + d) mod 2 ^ pointer_bits P + - d) mod 2 ^ pointer_bits P =
      (p + d + - d) mod 2 ^ pointer_bits P"
    by (rule mod_add_left_eq)
  also have "\<dots> = p"
    using r by simp
  finally show ?thesis
    using r by (simp add: movePointer_def)
qed

lemma movePointer_there_and_back:
  assumes "relocates P d p"
  shows "\<exists>q. movePointer P p d = Some q \<and> movePointer P q (- d) = Some p \<and>
    (q = nullptr \<longleftrightarrow> p = nullptr)"
proof (cases "p = nullptr")
  case True
  then show ?thesis
    by (simp add: movePointer_def)
next
  case False
  from assms False have "(p + d) mod 2 ^ pointer_bits P \<noteq> nullptr"
    by (simp add: relocates_def)
  with False movePointer_there [OF assms False] movePointer_back [OF assms False]
  show ?thesis
    by simp
qed

lemma those_there_and_back:
  assumes "\<forall>x \<in> set xs. \<exists>y. f x = Some y \<and> g y = Some x"
  shows "\<exists>ys. those (map f xs) = Some ys \<and> those (map g ys) = Some xs"
  using assms
proof (induction xs)
  case Nil
  then show ?case
    by simp
next
  case (Cons x xs)
  then obtain y where y: "f x = Some y" "g y = Some x"
    by auto
  from Cons obtain ys where ys: "those (map f xs) = Some ys" "those (map g ys) = Some xs"
    by auto
  from y ys have "those (map f (x # xs)) = Some (y # ys) \<and>
      those (map g (y # ys)) = Some (x # xs)"
    by simp
  then show ?case
    by blast
qed

lemma setContent_collection_twice:
  "setContent (\<lambda>u. u\<lparr>asCollection := y\<rparr>) (setContent (\<lambda>u. u\<lparr>asCollection := x\<rparr>) v) =
   setContent (\<lambda>u. u\<lparr>asCollection := y\<rparr>) v"
  by (simp add: setContent_def)

lemma setContent_collection_same:
  "setContent (\<lambda>u. u\<lparr>asCollection := asCollection (content v)\<rparr>) v = v"
  by (simp add: setContent_def)

lemma asCollection_setContent:
  "asCollection (content (setContent (\<lambda>u. u\<lparr>asCollection := x\<rparr>) v)) = x"
  by (simp add: setContent_def)

lemma VariantData_movePointers_collection:
  assumes "flags v AND COLLECTION_MASK K \<noteq> 0"
    and "movePointer P (head (asCollection (content v))) d = Some h"
    and "movePointer P (tail (asCollection (content v))) d = Some t"
  shows "VariantData_movePointers P K d (Document v slots) =
      (if h = nullptr
       then Some (Document (setContent (\<lambda>u. u\<lparr>asCollection :=
              (asCollection (content v))\<lparr>head := h, tail := t\<rparr>\<rparr>) v) slots)
       else map_option (Document (setContent (\<lambda>u. u\<lparr>asCollection :=
              (asCollection (content v))\<lparr>head := h, tail := t\<rparr>\<rparr>) v))
              (those (map (VariantData_movePointers P K d) slots)))"
  using assms by (simp add: Let_def)

lemma movePointers_there_and_back:
  assumes "rebasable P K d doc"
  shows "\<exists>doc'. VariantData_movePointers P K d doc = Some doc' \<and>
    VariantData_movePointers P K (- d) doc' = Some doc"
  using assms
proof (induction doc)
  case (Document v slots)
  show ?case
  proof (cases "flags v AND COLLECTION_MASK K \<noteq> 0")
    case False
    then show ?thesis
      by simp
  next
    case True
    define c where "c = asCollection (content v)"
    from Document.prems True
    have rh: "relocates P d (head c)" and rt: "relocates P d (tail c)"
      and kids: "head c \<noteq> nullptr \<longrightarrow> (\<forall>s \<in> set slots. rebasable P K d s)"
      by (simp_all add: c_def)
    from movePointer_there_and_back [OF rh] obtain h
      where h: "movePointer P (head c) d = Some h" "movePointer P h (- d) = Some (head c)"
        "h = nullptr \<longleftrightarrow> head c = nullptr"
      by blast
    from movePointer_there_and_back [OF rt] obtain t
      where t: "movePointer P (tail c) d = Some t" "movePointer P t (- d) = Some (tail c)"
      by blast
    define v' where "v' = setContent (\<lambda>u. u\<lparr>asCollection := c\<lparr>head := h, tail := t\<rparr>\<rparr>) v"
    have flags': "flags v' AND COLLECTION_MASK K \<noteq> 0"
      using True by (simp add: v'_def flags_setContent)
    have c': "asCollection (content v') = c\<lparr>head := h, tail := t\<rparr>"
      by (simp add: v'_def asCollection_setContent)
    have cell: "setContent (\<lambda>u. u\<lparr>asCollection :=
        (asCollection (content v'))\<lparr>head := head c, tail := tail c\<rparr>\<rparr>) v' = v"
    proof -
      have whole: "setContent (\<lambda>u. u\<lparr>asCollection := c\<rparr>) v' = v"
        by (simp add: v'_def setContent_collection_twice c_def setContent_collection_same)
      have part: "(asCollection (content v'))\<lparr>head := head c, tail := tail c\<rparr> = c"
        by (simp add: c')
      show ?thesis
        unfolding part by (rule whole)
    qed
    have h': "movePointer P (head (asCollection (content v'))) (- d) = Some (head c)"
      by (simp add: c' h)
    have t': "movePointer P (tail (asCollection (content v'))) (- d) = Some (tail c)"
      by (simp add: c' t)
    have there: "VariantData_movePointers P K d (Document v slots) =
        (if h = nullptr then Some (Document v' slots)
         else map_option (Document v')
           (those (map (VariantData_movePointers P K d) slots)))"
      unfolding v'_def c_def
      by (rule VariantData_movePointers_collection [OF True]) (simp_all add: h t flip: c_def)
    have again: "VariantData_movePointers P K (- d) (Document v' ys) =
        (if head c = nullptr then Some (Document v ys)
         else map_option (Document v)
           (those (map (VariantData_movePointers P K (- d)) ys)))" for ys
      by (rule VariantData_movePointers_collection [OF flags' h' t', of ys, unfolded cell])
    show ?thesis
    proof (cases "head c = nullptr")
      case True
      with h there again [of slots] show ?thesis
        by simp
    next
      case False
      with kids Document.IH
      have "\<forall>s \<in> set slots. \<exists>s'. VariantData_movePointers P K d s = Some s' \<and>
          VariantData_movePointers P K (- d) s' = Some s"
        by blast
      from those_there_and_back [OF this] obtain ys
        where ys: "those (map (VariantData_movePointers P K d) slots) = Some ys"
          "those (map (VariantData_movePointers P K (- d)) ys) = Some slots"
        by blast
      from False h ys there again [of ys] show ?thesis
        by simp
    qed
  qed
qed

text \<open>
  C1. When \<open>d\<close> is a relocation distance for the document, \<^verbatim>\<open>movePointers(d)\<close> on the
  root followed by \<^verbatim>\<open>movePointers(-d)\<close> gives back the document: both passes run to
  their end, every head and every tail, in the root and in all children, has its first
  value, and nothing else has changed. The pointer arithmetic wraps around at the width
  of the platform's pointers.
\<close>

theorem movePointers_round_trip:
  assumes "rebasable P K d doc"
  shows "Option.bind (VariantData_movePointers P K d doc)
      (VariantData_movePointers P K (- d)) = Some doc"
proof -
  from movePointers_there_and_back [OF assms] obtain doc'
    where "VariantData_movePointers P K d doc = Some doc'"
      and "VariantData_movePointers P K (- d) doc' = Some doc"
    by blast
  then show ?thesis
    by simp
qed

lemma example_moved:
  "VariantData_movePointers example_platform header_values 1024 nested_document =
     Some (Document (collection_cell 0x40 5120 5136)
       [Document null_cell [],
        Document (collection_cell 0x20 5152 5152) [Document true_cell []]])"
  by (simp add: nested_document_def collection_cell_def null_cell_def true_cell_def
      header_values_def zero_content_def movePointer_def setContent_def example_platform_def)

theorem movePointers_round_trip_witness:
  "rebasable example_platform header_values 1024 nested_document \<and>
   VariantData_movePointers example_platform header_values 1024 nested_document =
     Some (Document (collection_cell 0x40 5120 5136)
       [Document null_cell [],
        Document (collection_cell 0x20 5152 5152) [Document true_cell []]]) \<and>
   VariantData_movePointers example_platform header_values (- 1024)
     (Document (collection_cell 0x40 5120 5136)
       [Document null_cell [],
        Document (collection_cell 0x20 5152 5152) [Document true_cell []]]) =
     Some nested_document"
proof -
  have r: "rebasable example_platform header_values 1024 nested_document"
    by (simp add: nested_document_def collection_cell_def null_cell_def true_cell_def
        header_values_def zero_content_def relocates_def example_platform_def)
  from movePointers_round_trip [OF r]
  have "VariantData_movePointers example_platform header_values (- 1024)
     (Document (collection_cell 0x40 5120 5136)
       [Document null_cell [],
        Document (collection_cell 0x20 5152 5152) [Document true_cell []]]) =
     Some nested_document"
    by (simp add: example_moved)
  with r example_moved show ?thesis
    by (intro conjI)
qed

subsection \<open>Appending to a collection\<close>

lemma slot_chain_null [simp]: "slot_chain m nullptr xs \<longleftrightarrow> xs = []"
  by (cases xs) simp_all

lemma slot_chain_functional:
  "slot_chain m p xs \<Longrightarrow> slot_chain m p ys \<Longrightarrow> xs = ys"
proof (induction xs arbitrary: p ys)
  case Nil
  then show ?case by simp
next
  case (Cons a as)
  then show ?case by (cases ys) auto
qed

lemma slot_chain_suffix:
  "slot_chain m p (xs @ a # ys) \<Longrightarrow> slot_chain m a (a # ys)"
  by (induction xs arbitrary: p) auto

lemma slot_chain_head_not_later:
  assumes "slot_chain m (next_slot (m a)) as"
  shows "a \<notin> set as"
proof
  assume "a \<in> set as"
  then obtain bs cs where split: "as = bs @ a # cs"
    by (auto dest: split_list)
  with assms have "slot_chain m a (a # cs)"
    by (auto dest: slot_chain_suffix)
  then have "slot_chain m (next_slot (m a)) cs"
    by simp
  with assms have "as = cs"
    by (rule slot_chain_functional)
  with split show False
    by simp
qed

lemma slot_chain_distinct: "slot_chain m p xs \<Longrightarrow> distinct xs"
  by (induction xs arbitrary: p) (auto dest: slot_chain_head_not_later)

lemma slot_chain_no_null: "slot_chain m p xs \<Longrightarrow> nullptr \<notin> set xs"
  by (induction xs arbitrary: p) auto

lemma slot_chain_update_other:
  "a \<notin> set xs \<Longrightarrow> slot_chain (m(a := s)) p xs = slot_chain m p xs"
  by (induction xs arbitrary: p) auto

lemma slot_chain_snoc:
  assumes "slot_chain m p xs" and "xs \<noteq> []" and "slot \<notin> set xs" and "slot \<noteq> nullptr"
    and "next_slot (m slot) = nullptr" and "next_slot s = slot"
  shows "slot_chain (m(last xs := s)) p (xs @ [slot])"
  using assms(1,2,3)
proof (induction xs arbitrary: p)
  case Nil
  then show ?case by simp
next
  case (Cons a as)
  from Cons.prems have rest: "slot_chain m (next_slot (m a)) as" and p: "p = a" "a \<noteq> nullptr"
    and fresh: "slot \<noteq> a" "slot \<notin> set as"
    by simp_all
  show ?case
  proof (cases "as = []")
    case True
    define M where "M = m(a := s)"
    have "M a = s" "M slot = m slot"
      using fresh by (simp_all add: M_def)
    with assms(4,5,6) p have "slot_chain M p [a, slot]"
      by simp
    with True show ?thesis
      by (simp add: M_def)
  next
    case False
    define M where "M = m(last as := s)"
    from rest have "a \<notin> set as"
      by (rule slot_chain_head_not_later)
    with False have "a \<noteq> last as"
      using last_in_set by metis
    then have "M a = m a"
      by (simp add: M_def)
    moreover have "slot_chain M (next_slot (m a)) (as @ [slot])"
      unfolding M_def by (rule Cons.IH [OF rest False fresh(2)])
    ultimately have "slot_chain M p (a # as @ [slot])"
      using p by simp
    moreover from False have "last (a # as) = last as"
      by simp
    ultimately show ?thesis
      by (simp only: M_def append_Cons)
  qed
qed

lemma slotSize_loop_chain:
  "slot_chain m p xs \<Longrightarrow> slotSize_loop m p n = Some (n + length xs)"
proof (induction xs arbitrary: p n)
  case Nil
  then show ?case by (simp add: slotSize_loop.simps)
next
  case (Cons a as)
  then have "slotSize_loop m (next_slot (m a)) (n + 1) = Some (n + 1 + length as)"
    by simp
  with Cons.prems show ?case
    by (subst slotSize_loop.simps) simp
qed

lemma CollectionData_size_chain:
  "slot_chain m (head c) xs \<Longrightarrow> CollectionData_size m c = Some (length xs)"
  by (simp add: CollectionData_size_def slotSize_def slotSize_loop_chain)

lemma CollectionData_add_step:
  assumes inv: "collection_invariant m c xs"
    and slot: "slot \<noteq> nullptr" "slot \<notin> set xs" "next_slot (m slot) = nullptr"
    and add: "CollectionData_add slot c m = (c', m')"
  shows "collection_invariant m' c' (xs @ [slot])" and "tail c' = slot"
    and "\<And>s. s \<notin> set xs \<Longrightarrow> m' s = m s"
proof -
  from inv have chain: "slot_chain m (head c) xs"
    and tl: "tail c = (if xs = [] then nullptr else last xs)"
    by (simp_all add: collection_invariant_def)
  from chain have nn: "nullptr \<notin> set xs"
    by (rule slot_chain_no_null)
  show "collection_invariant m' c' (xs @ [slot])" and "tail c' = slot"
    and "\<And>s. s \<notin> set xs \<Longrightarrow> m' s = m s"
  proof (atomize (full), cases "xs = []")
    case True
    with chain tl add slot show "collection_invariant m' c' (xs @ [slot]) \<and> tail c' = slot \<and>
        (\<forall>s. s \<notin> set xs \<longrightarrow> m' s = m s)"
      by (auto simp: CollectionData_add_def collection_invariant_def)
  next
    case False
    with nn have "last xs \<noteq> nullptr"
      using last_in_set by metis
    with tl False add have c': "c' = c\<lparr>tail := slot\<rparr>"
      and m': "m' = m(last xs := setNextNotNull slot (m (last xs)))"
      by (auto simp: CollectionData_add_def)
    have "next_slot (setNextNotNull slot (m (last xs))) = slot"
      by (simp add: setNextNotNull_def)
    from slot_chain_snoc [OF chain False slot(2) slot(1) slot(3) this]
    have "slot_chain m' (head c') (xs @ [slot])"
      by (simp add: c' m')
    moreover from chain False have "head c \<noteq> nullptr"
      by (cases xs) auto
    moreover from False have "last xs \<in> set xs"
      by simp
    ultimately show "collection_invariant m' c' (xs @ [slot]) \<and> tail c' = slot \<and>
        (\<forall>s. s \<notin> set xs \<longrightarrow> m' s = m s)"
      by (auto simp: collection_invariant_def c' m')
  qed
qed


lemma collection_invariant_empty: "collection_invariant m empty_collection []"
  by (simp add: collection_invariant_def empty_collection_def)

text \<open>
  C7. Let a collection satisfy the invariant with the slots \<open>xs\<close>: the chain from its
  head is \<open>xs\<close>, its tail is the last of them, and its head is null exactly when there is
  none. Adding a slot that is not null, is not yet in the chain and has no next slot (the
  contract of \<^verbatim>\<open>add\<close>) gives a collection that satisfies the invariant with the slots
  \<open>xs @ [slot]\<close>, whose tail is the added slot and whose size is one more. Hence adding
  three such slots \<open>a\<close>, \<open>b\<close>, \<open>c\<close> to the empty collection makes the tail \<open>a\<close>, then
  \<open>b\<close>, then \<open>c\<close>, and ends with size 3 and the chain \<open>a\<close>, \<open>b\<close>, \<open>c\<close> from the head.
\<close>

theorem CollectionData_add_invariant:
  "(collection_invariant m coll xs \<and> slot \<noteq> nullptr \<and> slot \<notin> set xs \<and>
    next_slot (m slot) = nullptr \<longrightarrow>
      (case CollectionData_add slot coll m of (coll', m') \<Rightarrow>
         collection_invariant m' coll' (xs @ [slot]) \<and> tail coll' = slot \<and>
         CollectionData_size m' coll' = Some (length xs + 1))) \<and>
   (distinct [a, b, c] \<and> a \<noteq> nullptr \<and> b \<noteq> nullptr \<and> c \<noteq> nullptr \<and>
    next_slot (m0 a) = nullptr \<and> next_slot (m0 b) = nullptr \<and> next_slot (m0 c) = nullptr \<longrightarrow>
      (case CollectionData_add a empty_collection m0 of (c1, m1) \<Rightarrow>
       case CollectionData_add b c1 m1 of (c2, m2) \<Rightarrow>
       case CollectionData_add c c2 m2 of (c3, m3) \<Rightarrow>
         collection_invariant m1 c1 [a] \<and> tail c1 = a \<and>
         collection_invariant m2 c2 [a, b] \<and> tail c2 = b \<and>
         collection_invariant m3 c3 [a, b, c] \<and> tail c3 = c \<and>
         CollectionData_size m3 c3 = Some 3 \<and> slot_chain m3 (head c3) [a, b, c]))"
proof (intro conjI impI)
  assume "collection_invariant m coll xs \<and> slot \<noteq> nullptr \<and> slot \<notin> set xs \<and>
    next_slot (m slot) = nullptr"
  then have inv: "collection_invariant m coll xs" and slot: "slot \<noteq> nullptr" "slot \<notin> set xs"
    "next_slot (m slot) = nullptr"
    by simp_all
  obtain coll' m' where add: "CollectionData_add slot coll m = (coll', m')"
    by (cases "CollectionData_add slot coll m")
  from CollectionData_add_step(1,2) [OF inv slot add]
  have inv': "collection_invariant m' coll' (xs @ [slot])" and "tail coll' = slot"
    by simp_all
  moreover from inv' have "slot_chain m' (head coll') (xs @ [slot])"
    by (simp add: collection_invariant_def)
  then have "CollectionData_size m' coll' = Some (length xs + 1)"
    by (simp add: CollectionData_size_chain)
  ultimately show "case CollectionData_add slot coll m of (coll', m') \<Rightarrow>
         collection_invariant m' coll' (xs @ [slot]) \<and> tail coll' = slot \<and>
         CollectionData_size m' coll' = Some (length xs + 1)"
    by (simp add: add)
next
  assume "distinct [a, b, c] \<and> a \<noteq> nullptr \<and> b \<noteq> nullptr \<and> c \<noteq> nullptr \<and>
    next_slot (m0 a) = nullptr \<and> next_slot (m0 b) = nullptr \<and> next_slot (m0 c) = nullptr"
  then have ne: "a \<noteq> b" "a \<noteq> c" "b \<noteq> c" and nn: "a \<noteq> nullptr" "b \<noteq> nullptr" "c \<noteq> nullptr"
    and fresh: "next_slot (m0 a) = nullptr" "next_slot (m0 b) = nullptr"
      "next_slot (m0 c) = nullptr"
    by simp_all
  obtain c1 m1 where add1: "CollectionData_add a empty_collection m0 = (c1, m1)"
    by (cases "CollectionData_add a empty_collection m0")
  obtain c2 m2 where add2: "CollectionData_add b c1 m1 = (c2, m2)"
    by (cases "CollectionData_add b c1 m1")
  obtain c3 m3 where add3: "CollectionData_add c c2 m2 = (c3, m3)"
    by (cases "CollectionData_add c c2 m2")
  have step1: "collection_invariant m1 c1 ([] @ [a])" "tail c1 = a" "\<And>s. s \<notin> set [] \<Longrightarrow> m1 s = m0 s"
    by (rule CollectionData_add_step [OF collection_invariant_empty nn(1) _ fresh(1) add1],
        simp)+
  then have inv1: "collection_invariant m1 c1 [a]" and same1: "m1 b = m0 b" "m1 c = m0 c"
    by simp_all
  have step2: "collection_invariant m2 c2 ([a] @ [b])" "tail c2 = b"
    "\<And>s. s \<notin> set [a] \<Longrightarrow> m2 s = m1 s"
    by (rule CollectionData_add_step [OF inv1 nn(2) _ _ add2], use ne fresh same1 in simp_all)+
  then have inv2: "collection_invariant m2 c2 [a, b]" and same2: "m2 c = m1 c"
    using ne by simp_all
  have step3: "collection_invariant m3 c3 ([a, b] @ [c])" "tail c3 = c"
    by (rule CollectionData_add_step [OF inv2 nn(3) _ _ add3],
        use ne fresh same1 same2 in simp_all)+
  then have inv3: "collection_invariant m3 c3 [a, b, c]"
    by simp
  then have chain3: "slot_chain m3 (head c3) [a, b, c]"
    by (simp add: collection_invariant_def)
  from CollectionData_size_chain [OF chain3] have "CollectionData_size m3 c3 = Some 3"
    by simp
  with inv1 inv2 inv3 step1(2) step2(2) step3(2) chain3
  show "case CollectionData_add a empty_collection m0 of (c1, m1) \<Rightarrow>
       case CollectionData_add b c1 m1 of (c2, m2) \<Rightarrow>
       case CollectionData_add c c2 m2 of (c3, m3) \<Rightarrow>
         collection_invariant m1 c1 [a] \<and> tail c1 = a \<and>
         collection_invariant m2 c2 [a, b] \<and> tail c2 = b \<and>
         collection_invariant m3 c3 [a, b, c] \<and> tail c3 = c \<and>
         CollectionData_size m3 c3 = Some 3 \<and> slot_chain m3 (head c3) [a, b, c]"
    by (simp add: add1 add2 add3)
qed

theorem CollectionData_add_invariant_witness:
  "collection_invariant blank_memory empty_collection [] \<and>
   distinct [4096, 4112, 4128 :: ptr] \<and> next_slot (blank_memory 4096) = nullptr \<and>
   next_slot (blank_memory 4112) = nullptr \<and> next_slot (blank_memory 4128) = nullptr \<and>
   (case CollectionData_add 4096 empty_collection blank_memory of (c1, m1) \<Rightarrow>
    case CollectionData_add 4112 c1 m1 of (c2, m2) \<Rightarrow>
    case CollectionData_add 4128 c2 m2 of (c3, m3) \<Rightarrow>
      c3 = \<lparr>head = 4096, tail = 4128\<rparr> \<and> next_slot (m3 4096) = 4112 \<and>
      next_slot (m3 4112) = 4128 \<and> next_slot (m3 4128) = nullptr \<and>
      CollectionData_size m3 c3 = Some 3 \<and> slot_chain m3 (head c3) [4096, 4112, 4128])"
proof -
  have inv: "collection_invariant blank_memory empty_collection []"
    by (rule collection_invariant_empty)
  have hyp: "distinct [4096, 4112, 4128 :: ptr] \<and> (4096 :: ptr) \<noteq> nullptr \<and>
      (4112 :: ptr) \<noteq> nullptr \<and> (4128 :: ptr) \<noteq> nullptr \<and>
      next_slot (blank_memory 4096) = nullptr \<and> next_slot (blank_memory 4112) = nullptr \<and>
      next_slot (blank_memory 4128) = nullptr"
    by (simp add: blank_memory_def new_slot_def)
  note three = CollectionData_add_invariant [of blank_memory empty_collection "[]" 4096
      4096 4112 4128 blank_memory, THEN conjunct2, rule_format, OF hyp]
  have eval: "CollectionData_add 4128 (fst (CollectionData_add 4112
        (fst (CollectionData_add 4096 empty_collection blank_memory))
        (snd (CollectionData_add 4096 empty_collection blank_memory))))
      (snd (CollectionData_add 4112
        (fst (CollectionData_add 4096 empty_collection blank_memory))
        (snd (CollectionData_add 4096 empty_collection blank_memory)))) =
      (\<lparr>head = 4096, tail = 4128\<rparr>,
       blank_memory(4096 := new_slot\<lparr>next_slot := 4112\<rparr>,
         4112 := new_slot\<lparr>next_slot := 4128\<rparr>))"
    by (simp add: CollectionData_add_def empty_collection_def blank_memory_def
        setNextNotNull_def)
  from three have "CollectionData_size
      (snd (CollectionData_add 4128 (fst (CollectionData_add 4112
        (fst (CollectionData_add 4096 empty_collection blank_memory))
        (snd (CollectionData_add 4096 empty_collection blank_memory))))
      (snd (CollectionData_add 4112
        (fst (CollectionData_add 4096 empty_collection blank_memory))
        (snd (CollectionData_add 4096 empty_collection blank_memory))))))
      (fst (CollectionData_add 4128 (fst (CollectionData_add 4112
        (fst (CollectionData_add 4096 empty_collection blank_memory))
        (snd (CollectionData_add 4096 empty_collection blank_memory))))
      (snd (CollectionData_add 4112
        (fst (CollectionData_add 4096 empty_collection blank_memory))
        (snd (CollectionData_add 4096 empty_collection blank_memory)))))) = Some 3"
    by (simp add: case_prod_beta)
  with eval have size: "CollectionData_size
      (blank_memory(4096 := new_slot\<lparr>next_slot := 4112\<rparr>,
         4112 := new_slot\<lparr>next_slot := 4128\<rparr>))
      \<lparr>head = 4096, tail = 4128\<rparr> = Some 3"
    by simp
  have "case CollectionData_add 4096 empty_collection blank_memory of (c1, m1) \<Rightarrow>
    case CollectionData_add 4112 c1 m1 of (c2, m2) \<Rightarrow>
    case CollectionData_add 4128 c2 m2 of (c3, m3) \<Rightarrow>
      c3 = \<lparr>head = 4096, tail = 4128\<rparr> \<and> next_slot (m3 4096) = 4112 \<and>
      next_slot (m3 4112) = 4128 \<and> next_slot (m3 4128) = nullptr \<and>
      CollectionData_size m3 c3 = Some 3 \<and> slot_chain m3 (head c3) [4096, 4112, 4128]"
    using size eval
    by (simp add: case_prod_beta blank_memory_def new_slot_def)
  with inv hyp show ?thesis
    by simp
qed

subsection \<open>Equality of objects\<close>



lemma stringEquals_None [simp]: "stringEquals None s = False"
  by (simp add: stringEquals_def)

lemma first_match_None_key [simp]: "first_match T m None ys = None"
  by (simp add: first_match_def find_None_iff)

lemma first_match_Some:
  assumes "first_match T m k ys = Some b"
  shows "b \<in> set ys" and "key_text T m b = k" and "k \<noteq> None"
  using assms by (auto simp: first_match_def find_Some_iff stringEquals_def)

lemma first_match_None:
  assumes "first_match T m k ys = None" and "b \<in> set ys" and "k \<noteq> None"
  shows "key_text T m b \<noteq> k"
  using assms by (auto simp: first_match_def find_None_iff stringEquals_def)

lemma first_match_Cons:
  "first_match T m k (b # ys) =
     (if stringEquals k (key_text T m b) then Some b else first_match T m k ys)"
  by (simp add: first_match_def)

lemma CollectionData_get_loop_chain:
  "slot_chain m p ys \<Longrightarrow>
   CollectionData_get_loop T m k p =
     Some (case first_match T m k ys of None \<Rightarrow> nullptr | Some b \<Rightarrow> b)"
proof (induction ys arbitrary: p)
  case Nil
  then show ?case
    by (subst CollectionData_get_loop.simps) (simp add: first_match_def)
next
  case (Cons b ys)
  then have p: "p = b" "b \<noteq> nullptr" and rest: "slot_chain m (next_slot (m b)) ys"
    by simp_all
  from Cons.IH [OF rest]
  have "CollectionData_get_loop T m k (next_slot (m b)) =
      Some (case first_match T m k ys of None \<Rightarrow> nullptr | Some b \<Rightarrow> b)" .
  with p show ?case
    by (subst CollectionData_get_loop.simps) (simp add: first_match_Cons key_text_def)
qed

lemma CollectionData_get_chain:
  assumes "slot_chain m (head c) ys"
  shows "CollectionData_get T m c k =
     Some (case first_match T m k ys of None \<Rightarrow> nullptr | Some b \<Rightarrow> b)"
  using CollectionData_get_loop_chain [OF assms, of T k]
  by (simp add: CollectionData_get_def)

lemma first_match_not_null:
  assumes "slot_chain m p ys" and "first_match T m k ys = Some b"
  shows "b \<noteq> nullptr"
  using slot_chain_no_null [OF assms(1)] first_match_Some(1) [OF assms(2)] by auto

lemma objectEquals_loop_chain:
  assumes rhs: "slot_chain m (head rhs) ys"
  shows "slot_chain m a xs \<Longrightarrow>
   objectEquals_loop compare T m rhs a n =
     Some (list_all (\<lambda>a. case first_match T m (key_text T m a) ys of
                      None \<Rightarrow> False
                    | Some b \<Rightarrow> compare m (data (m a)) (data (m b)) = COMPARE_RESULT_EQUAL) xs \<and>
           n + length xs = length ys)"
proof (induction xs arbitrary: a n)
  case Nil
  with CollectionData_size_chain [OF rhs] show ?case
    by (subst objectEquals_loop.simps) simp
next
  case (Cons x xs)
  then have a: "a = x" "x \<noteq> nullptr" and rest: "slot_chain m (next_slot (m x)) xs"
    by simp_all
  note get = CollectionData_get_chain [OF rhs, of T "key_text T m x"]
  note IH = Cons.IH [OF rest, of "n + 1"]
  show ?case
  proof (cases "first_match T m (key_text T m x) ys")
    case None
    with a get show ?thesis
      by (subst objectEquals_loop.simps) (simp add: key_text_def)
  next
    case (Some b)
    with rhs have "b \<noteq> nullptr"
      by (rule first_match_not_null)
    with a get Some IH show ?thesis
      by (subst objectEquals_loop.simps) (simp add: key_text_def)
  qed
qed

lemma objectEquals_chain:
  assumes "slot_chain m (head lhs) xs" and "slot_chain m (head rhs) ys"
  shows "objectEquals compare T m lhs rhs = Some (members_agree compare T m xs ys)"
  using objectEquals_loop_chain [OF assms(2) assms(1), of compare T 0]
  by (auto simp: objectEquals_def members_agree_def)




lemma members_agree_keys_found:
  assumes "members_agree compare T m xs ys" and "a \<in> set xs"
  shows "key_text T m a \<in> key_text T m ` set ys"
proof -
  from assms have "case first_match T m (key_text T m a) ys of None \<Rightarrow> False
      | Some b \<Rightarrow> compare m (data (m a)) (data (m b)) = COMPARE_RESULT_EQUAL"
    by (simp add: members_agree_def list_all_iff)
  then obtain b where "first_match T m (key_text T m a) ys = Some b"
    by (cases "first_match T m (key_text T m a) ys") simp_all
  then have "b \<in> set ys" "key_text T m b = key_text T m a"
    by (rule first_match_Some)+
  then show ?thesis
    by (metis imageI)
qed

lemma members_agree_no_extra_key:
  assumes agree: "members_agree compare T m xs ys"
    and dist: "distinct (map (key_text T m) xs)"
    and b: "b \<in> set ys"
  shows "key_text T m b \<in> key_text T m ` set xs"
proof (rule ccontr)
  assume extra: "key_text T m b \<notin> key_text T m ` set xs"
  let ?L = "key_text T m ` set xs" and ?R = "key_text T m ` set ys"
  from agree have "?L \<subseteq> ?R"
    by (auto dest: members_agree_keys_found)
  with b have "insert (key_text T m b) ?L \<subseteq> ?R"
    by auto
  then have "card (insert (key_text T m b) ?L) \<le> card ?R"
    by (intro card_mono) simp_all
  with extra have "Suc (card ?L) \<le> card ?R"
    by simp
  moreover from dist have "card ?L = length xs"
    by (metis distinct_card length_map set_map)
  moreover have "card ?R \<le> length ys"
    by (metis card_length length_map set_map)
  moreover from agree have "length ys = length xs"
    by (simp add: members_agree_def)
  ultimately show False
    by simp
qed


lemma members_agree_left_order:
  assumes "mset (map (slot_member T m) xs') = mset (map (slot_member T m) xs)"
  shows "members_agree compare T m xs' ys = members_agree compare T m xs ys"
proof -
  let ?Q = "\<lambda>(k, d). case first_match T m k ys of None \<Rightarrow> False
      | Some b \<Rightarrow> compare m d (data (m b)) = COMPARE_RESULT_EQUAL"
  have rd: "list_all (\<lambda>a. case first_match T m (key_text T m a) ys of None \<Rightarrow> False
      | Some b \<Rightarrow> compare m (data (m a)) (data (m b)) = COMPARE_RESULT_EQUAL) zs =
      (\<forall>x \<in> set (map (slot_member T m) zs). ?Q x)" for zs
    by (simp add: list_all_iff slot_member_def)
  from assms have "set (map (slot_member T m) xs') = set (map (slot_member T m) xs)"
    by (rule mset_eq_setD)
  moreover from assms have "length xs' = length xs"
    by (metis length_map mset_eq_length)
  ultimately show ?thesis
    unfolding members_agree_def rd by simp
qed


lemma first_match_distinct_keys:
  assumes "distinct (map (key_text T m) ys)"
  shows "first_match T m k ys = Some b \<longleftrightarrow> b \<in> set ys \<and> k \<noteq> None \<and> key_text T m b = k"
proof
  assume "first_match T m k ys = Some b"
  then show "b \<in> set ys \<and> k \<noteq> None \<and> key_text T m b = k"
    by (auto dest: first_match_Some)
next
  assume b: "b \<in> set ys \<and> k \<noteq> None \<and> key_text T m b = k"
  then obtain b' where found: "first_match T m k ys = Some b'"
    by (cases "first_match T m k ys") (auto dest: first_match_None)
  then have "b' \<in> set ys" "key_text T m b' = k"
    by (rule first_match_Some)+
  with b assms have "b' = b"
    by (metis distinct_map inj_onD)
  with found show "first_match T m k ys = Some b"
    by simp
qed


lemma slot_member_in_set:
  "(k, d) \<in> set (map (slot_member T m) ys) \<longleftrightarrow>
     (\<exists>b \<in> set ys. key_text T m b = k \<and> data (m b) = d)"
  by (simp add: slot_member_def image_iff) blast

lemma match_by_members:
  assumes "distinct (map (key_text T m) ys)"
  shows "(case first_match T m k ys of None \<Rightarrow> False | Some b \<Rightarrow> R (data (m b))) \<longleftrightarrow>
     (k \<noteq> None \<and> (\<exists>d. (k, d) \<in> set (map (slot_member T m) ys) \<and> R d))"
proof (cases "first_match T m k ys")
  case None
  have "\<not> (k \<noteq> None \<and> (\<exists>d. (k, d) \<in> set (map (slot_member T m) ys) \<and> R d))"
  proof
    assume "k \<noteq> None \<and> (\<exists>d. (k, d) \<in> set (map (slot_member T m) ys) \<and> R d)"
    then obtain b where "k \<noteq> None" "b \<in> set ys" "key_text T m b = k"
      unfolding slot_member_in_set by blast
    with first_match_None [OF None] show False
      by blast
  qed
  with None show ?thesis
    by (simp only: option.case)
next
  case (Some b)
  then have b: "b \<in> set ys" "k \<noteq> None" "key_text T m b = k"
    by (rule first_match_Some)+
  have only: "d = data (m b)" if "(k, d) \<in> set (map (slot_member T m) ys)" for d
  proof -
    from that obtain b' where b': "b' \<in> set ys" "key_text T m b' = k" "data (m b') = d"
      unfolding slot_member_in_set by blast
    from assms have "inj_on (key_text T m) (set ys)"
      by (simp add: distinct_map)
    with b(1,3) b'(1,2) have "b' = b"
      by (simp add: inj_on_def)
    with b' show ?thesis by simp
  qed
  have here: "(k, data (m b)) \<in> set (map (slot_member T m) ys)"
    unfolding slot_member_in_set using b by blast
  have "(\<exists>d. (k, d) \<in> set (map (slot_member T m) ys) \<and> R d) \<longleftrightarrow> R (data (m b))"
    using only here by blast
  with Some b(2) show ?thesis
    by (simp only: option.case simp_thms)
qed


lemma key_text_slot_member: "map (key_text T m) ys = map fst (map (slot_member T m) ys)"
  by (simp add: slot_member_def)

lemma members_agree_right_order:
  assumes same: "mset (map (slot_member T m) ys') = mset (map (slot_member T m) ys)"
    and dist: "distinct (map (key_text T m) ys)"
  shows "members_agree compare T m xs ys' = members_agree compare T m xs ys"
proof -
  from same have "mset (map fst (map (slot_member T m) ys')) =
      mset (map fst (map (slot_member T m) ys))"
    by (metis mset_map)
  then have "mset (map (key_text T m) ys') = mset (map (key_text T m) ys)"
    by (simp only: key_text_slot_member)
  with dist have dist': "distinct (map (key_text T m) ys')"
    by (metis mset_eq_imp_distinct_iff)
  from same have sets: "set (map (slot_member T m) ys') = set (map (slot_member T m) ys)"
    by (rule mset_eq_setD)
  from same have len: "length ys' = length ys"
    by (metis length_map mset_eq_length)
  have step: "(case first_match T m k ys' of None \<Rightarrow> False | Some b \<Rightarrow> R (data (m b))) =
      (case first_match T m k ys of None \<Rightarrow> False | Some b \<Rightarrow> R (data (m b)))" for k R
    unfolding match_by_members [OF dist] match_by_members [OF dist'] sets ..
  have "(\<lambda>a. case first_match T m (key_text T m a) ys' of None \<Rightarrow> False
        | Some b \<Rightarrow> compare m (data (m a)) (data (m b)) = COMPARE_RESULT_EQUAL) =
      (\<lambda>a. case first_match T m (key_text T m a) ys of None \<Rightarrow> False
        | Some b \<Rightarrow> compare m (data (m a)) (data (m b)) = COMPARE_RESULT_EQUAL)"
    by (intro ext) (rule step [where R = "\<lambda>d. compare m (data (m _)) d = COMPARE_RESULT_EQUAL"])
  then show ?thesis
    by (simp only: members_agree_def len)
qed

lemma example_memory_slots:
  "example_memory 4096 = member_slot 100 1 4112" "example_memory 4112 = member_slot 200 2 nullptr"
  "example_memory 4128 = member_slot 200 2 4144" "example_memory 4144 = member_slot 100 1 nullptr"
  "example_memory 4160 = member_slot 100 1 nullptr"
  "example_memory 4176 = member_slot 100 1 4192" "example_memory 4192 = member_slot 200 2 4208"
  "example_memory 4208 = member_slot 300 3 nullptr"
  "example_memory 4224 = member_slot 100 1 4240" "example_memory 4240 = member_slot 100 1 nullptr"
  by (simp_all add: example_memory_def)

lemma example_keys:
  "key_text example_text example_memory 4096 = Some ''x''"
  "key_text example_text example_memory 4112 = Some ''y''"
  "key_text example_text example_memory 4128 = Some ''y''"
  "key_text example_text example_memory 4144 = Some ''x''"
  "key_text example_text example_memory 4160 = Some ''x''"
  "key_text example_text example_memory 4176 = Some ''x''"
  "key_text example_text example_memory 4192 = Some ''y''"
  "key_text example_text example_memory 4208 = Some ''z''"
  "key_text example_text example_memory 4224 = Some ''x''"
  "key_text example_text example_memory 4240 = Some ''x''"
  by (simp_all add: key_text_def adaptString_def example_memory_slots member_slot_def
      example_text_def)

lemma example_chains:
  "slot_chain example_memory (head (object_at 4096 4112)) [4096, 4112]"
  "slot_chain example_memory (head (object_at 4128 4144)) [4128, 4144]"
  "slot_chain example_memory (head (object_at 4160 4160)) [4160]"
  "slot_chain example_memory (head (object_at 4176 4208)) [4176, 4192, 4208]"
  "slot_chain example_memory (head (object_at 4224 4240)) [4224, 4240]"
  by (simp_all add: object_at_def example_memory_slots member_slot_def)

lemma example_agree:
  "members_agree integer_compare example_text example_memory [4096, 4112] [4128, 4144] = True"
  "members_agree integer_compare example_text example_memory [4096, 4112] [4160] = False"
  "members_agree integer_compare example_text example_memory [4096, 4112] [4176, 4192, 4208] = False"
  "members_agree integer_compare example_text example_memory [4224, 4240] [4096, 4112] = True"
  by (simp_all add: members_agree_def first_match_def example_keys example_memory_slots
      member_slot_def stringEquals_def integer_compare_def integer_cell_def)

text \<open>
  C3, as the code has it. Let the slots of the left operand be \<open>xs\<close> and those of the
  right operand \<open>ys\<close>, each slot of the right operand with a key. Then
  \<^verbatim>\<open>objectEquals\<close> returns, and its result is true exactly when every key of the left
  operand is found in the right operand, at the first slot with that key, with an equal
  value there, and the two operands have the same number of members. A key of the left
  operand that is missing in the right makes the result false. An extra key in the right
  operand makes it false when the keys of the left operand are pairwise distinct. The
  order of the members of the left operand does not matter, and the order of the members
  of the right operand does not matter when its keys are pairwise distinct.
\<close>

theorem objectEquals_members:
  assumes "slot_chain m (head lhs) xs" and "slot_chain m (head rhs) ys" and "has_keys m ys"
  shows "objectEquals compare T m lhs rhs = Some (members_agree compare T m xs ys) \<and>
    (\<forall>a \<in> set xs. key_text T m a \<notin> key_text T m ` set ys \<longrightarrow>
       objectEquals compare T m lhs rhs = Some False) \<and>
    (distinct (map (key_text T m) xs) \<longrightarrow>
       (\<forall>b \<in> set ys. key_text T m b \<notin> key_text T m ` set xs \<longrightarrow>
          objectEquals compare T m lhs rhs = Some False)) \<and>
    (\<forall>lhs' xs'. slot_chain m (head lhs') xs' \<and>
        mset (map (slot_member T m) xs') = mset (map (slot_member T m) xs) \<longrightarrow>
        objectEquals compare T m lhs' rhs = objectEquals compare T m lhs rhs) \<and>
    (distinct (map (key_text T m) ys) \<longrightarrow>
       (\<forall>rhs' ys'. slot_chain m (head rhs') ys' \<and>
          mset (map (slot_member T m) ys') = mset (map (slot_member T m) ys) \<longrightarrow>
          objectEquals compare T m lhs rhs' = objectEquals compare T m lhs rhs))"
proof (intro conjI ballI allI impI)
  note eq = objectEquals_chain [OF assms(1,2), of compare T]
  show "objectEquals compare T m lhs rhs = Some (members_agree compare T m xs ys)"
    by (rule eq)
  show "objectEquals compare T m lhs rhs = Some False"
    if "a \<in> set xs" "key_text T m a \<notin> key_text T m ` set ys" for a
  proof -
    from that have "\<not> members_agree compare T m xs ys"
      using members_agree_keys_found [of compare T m xs ys a] by blast
    with eq show ?thesis
      by simp
  qed
  show "objectEquals compare T m lhs rhs = Some False"
    if "distinct (map (key_text T m) xs)" "b \<in> set ys"
      "key_text T m b \<notin> key_text T m ` set xs" for b
  proof -
    from that have "\<not> members_agree compare T m xs ys"
      using members_agree_no_extra_key [of compare T m xs ys b] by blast
    with eq show ?thesis
      by simp
  qed
  show "objectEquals compare T m lhs' rhs = objectEquals compare T m lhs rhs"
    if "slot_chain m (head lhs') xs' \<and>
        mset (map (slot_member T m) xs') = mset (map (slot_member T m) xs)" for lhs' xs'
  proof -
    from that have chain: "slot_chain m (head lhs') xs'"
      and same: "mset (map (slot_member T m) xs') = mset (map (slot_member T m) xs)"
      by blast+
    have "objectEquals compare T m lhs' rhs = Some (members_agree compare T m xs' ys)"
      by (rule objectEquals_chain [OF chain assms(2)])
    also have "members_agree compare T m xs' ys = members_agree compare T m xs ys"
      by (rule members_agree_left_order [OF same])
    finally show ?thesis
      by (simp only: eq)
  qed
  show "objectEquals compare T m lhs rhs' = objectEquals compare T m lhs rhs"
    if "distinct (map (key_text T m) ys)" "slot_chain m (head rhs') ys' \<and>
        mset (map (slot_member T m) ys') = mset (map (slot_member T m) ys)" for rhs' ys'
  proof -
    from that have chain: "slot_chain m (head rhs') ys'"
      and same: "mset (map (slot_member T m) ys') = mset (map (slot_member T m) ys)"
      by blast+
    have "objectEquals compare T m lhs rhs' = Some (members_agree compare T m xs ys')"
      by (rule objectEquals_chain [OF assms(1) chain])
    also have "members_agree compare T m xs ys' = members_agree compare T m xs ys"
      by (rule members_agree_right_order [OF same that(1)])
    finally show ?thesis
      by (simp only: eq)
  qed
qed

theorem objectEquals_members_witness:
  "slot_chain example_memory (head (object_at 4096 4112)) [4096, 4112] \<and>
   slot_chain example_memory (head (object_at 4128 4144)) [4128, 4144] \<and>
   has_keys example_memory [4128, 4144] \<and>
   objectEquals integer_compare example_text example_memory
     (object_at 4096 4112) (object_at 4128 4144) = Some True \<and>
   objectEquals integer_compare example_text example_memory
     (object_at 4096 4112) (object_at 4160 4160) = Some False \<and>
   objectEquals integer_compare example_text example_memory
     (object_at 4096 4112) (object_at 4176 4208) = Some False"
proof -
  have k: "has_keys example_memory [4128, 4144]" "has_keys example_memory [4160]"
    "has_keys example_memory [4176, 4192, 4208]"
    by (simp_all add: has_keys_def example_memory_slots member_slot_def)
  from objectEquals_members [OF example_chains(1) example_chains(2) k(1),
      of integer_compare example_text]
  have 1: "objectEquals integer_compare example_text example_memory
     (object_at 4096 4112) (object_at 4128 4144) = Some True"
    by (simp only: example_agree)
  from objectEquals_members [OF example_chains(1) example_chains(3) k(2),
      of integer_compare example_text]
  have 2: "objectEquals integer_compare example_text example_memory
     (object_at 4096 4112) (object_at 4160 4160) = Some False"
    by (simp only: example_agree)
  from objectEquals_members [OF example_chains(1) example_chains(4) k(3),
      of integer_compare example_text]
  have 3: "objectEquals integer_compare example_text example_memory
     (object_at 4096 4112) (object_at 4176 4208) = Some False"
    by (simp only: example_agree)
  from example_chains(1) example_chains(2) k(1) 1 2 3 show ?thesis
    by (intro conjI)
qed

theorem objectEquals_extra_key_counterexample:
  "4112 \<in> set [4096, 4112 :: ptr] \<and>
   key_text example_text example_memory 4112 \<notin>
     key_text example_text example_memory ` set [4224, 4240] \<and>
   objectEquals integer_compare example_text example_memory
     (object_at 4224 4240) (object_at 4096 4112) = Some True"
proof -
  have "key_text example_text example_memory 4112 \<notin>
     key_text example_text example_memory ` set [4224, 4240]"
    by (simp add: example_keys)
  moreover from objectEquals_chain [OF example_chains(5) example_chains(1),
      of integer_compare example_text]
  have "objectEquals integer_compare example_text example_memory
     (object_at 4224 4240) (object_at 4096 4112) = Some True"
    by (simp only: example_agree)
  ultimately show ?thesis
    by simp
qed

subsection \<open>Adding an element\<close>

lemma kind_in_mask:
  assumes "flags_layout K" and "t \<in> set (kinds K)"
  shows "t AND VALUE_MASK K = t"
  using assms by (auto simp: flags_layout_def list_all_iff)

lemma isArray_iff_type:
  assumes "flags_layout K" and "type K v \<in> set (kinds K)"
  shows "isArray K v \<longleftrightarrow> type K v = VALUE_IS_ARRAY K"
proof -
  have "VALUE_IS_ARRAY K AND VALUE_MASK K = VALUE_IS_ARRAY K"
    by (rule kind_in_mask [OF assms(1) kinds_mem(10)])
  then have "flags v AND VALUE_IS_ARRAY K = type K v AND VALUE_IS_ARRAY K"
    by (metis type_def and.assoc and.commute)
  moreover from assms
  have "(type K v AND VALUE_IS_ARRAY K \<noteq> 0) = (type K v = VALUE_IS_ARRAY K)"
    by (simp add: flags_layout_def list_all_iff)
  ultimately show ?thesis
    by (simp add: isArray_def)
qed

lemma isObject_iff_type:
  assumes "flags_layout K" and "type K v \<in> set (kinds K)"
  shows "isObject K v \<longleftrightarrow> type K v = VALUE_IS_OBJECT K"
proof -
  have "VALUE_IS_OBJECT K AND VALUE_MASK K = VALUE_IS_OBJECT K"
    by (rule kind_in_mask [OF assms(1) kinds_mem(9)])
  then have "flags v AND VALUE_IS_OBJECT K = type K v AND VALUE_IS_OBJECT K"
    by (metis type_def and.assoc and.commute)
  moreover from assms
  have "(type K v AND VALUE_IS_OBJECT K \<noteq> 0) = (type K v = VALUE_IS_OBJECT K)"
    by (simp add: flags_layout_def list_all_iff)
  ultimately show ?thesis
    by (simp add: isObject_def)
qed

lemma type_with_collection [simp]: "type K (with_collection c v) = type K v"
  by (simp add: with_collection_def type_def)

lemma flags_with_collection [simp]: "flags (with_collection c v) = flags v"
  by (simp add: with_collection_def)

lemma type_toArray:
  assumes "flags_layout K"
  shows "type K (toArray K v) = VALUE_IS_ARRAY K"
  using type_setType [OF assms kinds_mem(10), of v] by (simp add: toArray_def type_def)

lemma type_toObject:
  assumes "flags_layout K"
  shows "type K (toObject K v) = VALUE_IS_OBJECT K"
  using type_setType [OF assms kinds_mem(9), of v] by (simp add: toObject_def type_def)

lemma collection_toArray [simp]: "asCollection (content (toArray K v)) = empty_collection"
  by (simp add: toArray_def setContent_def)

lemma collection_toObject [simp]: "asCollection (content (toObject K v)) = empty_collection"
  by (simp add: toObject_def setContent_def)

lemma CollectionData_add_empty:
  "CollectionData_add slot empty_collection m = (\<lparr>head = slot, tail = slot\<rparr>, m)"
  by (simp add: CollectionData_add_def empty_collection_def)

lemma ArrayData_addElement_empty:
  "ArrayData_addElement X (Some empty_collection) s =
     (if fst (allocVariant X s) = nullptr
      then (nullptr, Some empty_collection, snd (allocVariant X s))
      else (fst (allocVariant X s), Some \<lparr>head = fst (allocVariant X s), tail = fst (allocVariant X s)\<rparr>,
            snd (allocVariant X s)))"
  by (simp add: ArrayData_addElement_def CollectionData_add_empty case_prod_beta)

lemma with_collection_same: "with_collection (asCollection (content v)) v = v"
  by (simp add: with_collection_def setContent_def)

text \<open>
  C2. On a Null cell \<^verbatim>\<open>addElement\<close> first makes the cell an empty array and then asks the
  arena for a slot: with a slot the array has that slot as its only element and the cell
  of the slot is returned; without one the result is null and the cell stays an empty
  array. In both cases the cell that results is of the kind Array, with the slot of the
  arena as the head and the tail of its collection, and the arena is as the allocation
  left it; when the slot is a fresh one, without a next slot, the array has this one
  element. On a cell of any other kind than Null and Array the result is the null
  reference, and neither the cell nor the arena has changed.
\<close>

theorem addElement_promotes_null_only:
  assumes "flags_layout K"
  shows "(isNull K v \<longrightarrow>
       isArray K (toArray K v) \<and> type K (toArray K v) = VALUE_IS_ARRAY K \<and>
       asCollection (content (toArray K v)) = empty_collection \<and>
       VariantData_addElement X K v s =
         (let (slot, s1) = allocVariant X s in
          if slot = nullptr then (nullptr, toArray K v, s1)
          else (slot, with_collection \<lparr>head = slot, tail = slot\<rparr> (toArray K v), s1)) \<and>
       fst (VariantData_addElement X K v s) = fst (allocVariant X s) \<and>
       type K (fst (snd (VariantData_addElement X K v s))) = VALUE_IS_ARRAY K \<and>
       isArray K (fst (snd (VariantData_addElement X K v s))) \<and>
       flags (fst (snd (VariantData_addElement X K v s))) = flags (toArray K v) \<and>
       asCollection (content (fst (snd (VariantData_addElement X K v s)))) =
         \<lparr>head = fst (allocVariant X s), tail = fst (allocVariant X s)\<rparr> \<and>
       snd (snd (VariantData_addElement X K v s)) = snd (allocVariant X s) \<and>
       (fst (allocVariant X s) \<noteq> nullptr \<and>
        next_slot (slot_mem (snd (allocVariant X s)) (fst (allocVariant X s))) = nullptr \<longrightarrow>
          slot_chain (slot_mem (snd (snd (VariantData_addElement X K v s))))
            (head (asCollection (content (fst (snd (VariantData_addElement X K v s))))))
            [fst (VariantData_addElement X K v s)] \<and>
          CollectionData_size (slot_mem (snd (snd (VariantData_addElement X K v s))))
            (asCollection (content (fst (snd (VariantData_addElement X K v s))))) = Some 1)) \<and>
     (type K v \<in> set (kinds K) \<and> type K v \<noteq> VALUE_IS_NULL K \<and>
      type K v \<noteq> VALUE_IS_ARRAY K \<longrightarrow>
       VariantData_addElement X K v s = (nullptr, v, s))"
proof -
  have t: "type K (toArray K v) = VALUE_IS_ARRAY K"
    by (rule type_toArray [OF assms])
  then have k: "type K (toArray K v) \<in> set (kinds K)"
    by (simp add: kinds_mem)
  from t k have a: "isArray K (toArray K v)"
    by (simp add: isArray_iff_type [OF assms])
  have e: "asCollection (content (toArray K v)) = empty_collection"
    by simp
  have other: "VariantData_addElement X K v s = (nullptr, v, s)"
    if "type K v \<in> set (kinds K) \<and> type K v \<noteq> VALUE_IS_NULL K \<and>
      type K v \<noteq> VALUE_IS_ARRAY K"
  proof -
    from that have "\<not> isNull K v" "\<not> isArray K v"
      by (simp_all add: isNull_def isArray_iff_type [OF assms])
    then show ?thesis
      by (simp add: VariantData_addElement_def asArray_def ArrayData_addElement_def)
  qed
  have null: "VariantData_addElement X K v s =
         (let (slot, s1) = allocVariant X s in
          if slot = nullptr then (nullptr, toArray K v, s1)
          else (slot, with_collection \<lparr>head = slot, tail = slot\<rparr> (toArray K v), s1)) \<and>
       fst (VariantData_addElement X K v s) = fst (allocVariant X s) \<and>
       type K (fst (snd (VariantData_addElement X K v s))) = VALUE_IS_ARRAY K \<and>
       isArray K (fst (snd (VariantData_addElement X K v s))) \<and>
       flags (fst (snd (VariantData_addElement X K v s))) = flags (toArray K v) \<and>
       asCollection (content (fst (snd (VariantData_addElement X K v s)))) =
         \<lparr>head = fst (allocVariant X s), tail = fst (allocVariant X s)\<rparr> \<and>
       snd (snd (VariantData_addElement X K v s)) = snd (allocVariant X s) \<and>
       (fst (allocVariant X s) \<noteq> nullptr \<and>
        next_slot (slot_mem (snd (allocVariant X s)) (fst (allocVariant X s))) = nullptr \<longrightarrow>
          slot_chain (slot_mem (snd (snd (VariantData_addElement X K v s))))
            (head (asCollection (content (fst (snd (VariantData_addElement X K v s))))))
            [fst (VariantData_addElement X K v s)] \<and>
          CollectionData_size (slot_mem (snd (snd (VariantData_addElement X K v s))))
            (asCollection (content (fst (snd (VariantData_addElement X K v s))))) = Some 1)"
    if n: "isNull K v"
  proof -
    define slot where "slot = fst (allocVariant X s)"
    define s1 where "s1 = snd (allocVariant X s)"
    define v' where "v' = with_collection \<lparr>head = slot, tail = slot\<rparr> (toArray K v)"
    have same: "with_collection empty_collection (toArray K v) = toArray K v"
      using with_collection_same [of "toArray K v"] by simp
    from n have eq: "VariantData_addElement X K v s =
         (let (slot, s1) = allocVariant X s in
          if slot = nullptr then (nullptr, toArray K v, s1)
          else (slot, with_collection \<lparr>head = slot, tail = slot\<rparr> (toArray K v), s1))"
      by (simp add: VariantData_addElement_def ArrayData_addElement_empty case_prod_beta same)
    have "slot = nullptr \<Longrightarrow> v' = toArray K v"
      using same by (simp add: v'_def empty_collection_def)
    with eq have r: "VariantData_addElement X K v s = (slot, v', s1)"
      by (auto simp: case_prod_beta slot_def s1_def v'_def)
    have tv: "type K v' = VALUE_IS_ARRAY K"
      by (simp add: v'_def t)
    then have av: "isArray K v'"
      by (simp add: isArray_iff_type [OF assms] kinds_mem)
    have fv: "flags v' = flags (toArray K v)"
      by (simp add: v'_def)
    have cv: "asCollection (content v') = \<lparr>head = slot, tail = slot\<rparr>"
      by (simp add: v'_def with_collection_def setContent_def)
    have one: "slot_chain (slot_mem s1) (head (asCollection (content v'))) [slot] \<and>
        CollectionData_size (slot_mem s1) (asCollection (content v')) = Some 1"
      if "slot \<noteq> nullptr \<and> next_slot (slot_mem s1 slot) = nullptr"
    proof -
      from that have "slot_chain (slot_mem s1) (head (asCollection (content v'))) [slot]"
        by (simp add: cv)
      with CollectionData_size_chain [OF this] show ?thesis
        by simp
    qed
    from eq tv av fv cv one show ?thesis
      unfolding r fst_conv snd_conv slot_def [symmetric] s1_def [symmetric]
      by (intro conjI impI) simp_all
  qed
  from a t e null other show ?thesis
    by blast
qed

lemma example_alloc:
  "allocVariant example_arena example_store =
     (8192, example_store\<lparr>slot_mem := example_memory(8192 := new_slot),
        resources := \<lparr>free_slot = 8208, slots_left = 3, free_text = 16384\<rparr>\<rparr>)"
  by (simp add: example_arena_def example_allocVariant_def example_store_def)

theorem addElement_promotes_null_only_witness:
  "flags_layout header_values \<and>
   isNull header_values null_cell \<and>
   VariantData_addElement example_arena header_values null_cell example_store =
     (8192, with_collection \<lparr>head = 8192, tail = 8192\<rparr> (toArray header_values null_cell),
      example_store\<lparr>slot_mem := example_memory(8192 := new_slot),
        resources := \<lparr>free_slot = 8208, slots_left = 3, free_text = 16384\<rparr>\<rparr>) \<and>
   VariantData_addElement example_arena header_values null_cell example_store =
     (8192, collection_cell 0x40 8192 8192,
      example_store\<lparr>slot_mem := example_memory(8192 := new_slot),
        resources := \<lparr>free_slot = 8208, slots_left = 3, free_text = 16384\<rparr>\<rparr>) \<and>
   CollectionData_size (example_memory(8192 := new_slot))
     (asCollection (content (collection_cell 0x40 8192 8192))) = Some 1 \<and>
   type header_values true_cell \<in> set (kinds header_values) \<and>
   type header_values true_cell = VALUE_IS_BOOLEAN header_values \<and>
   VariantData_addElement example_arena header_values true_cell example_store =
     (nullptr, true_cell, example_store)"
proof -
  note h = flags_layout_header_values
  have n: "isNull header_values null_cell"
    by (simp add: isNull_def type_def null_cell_def header_values_def)
  have b: "type header_values true_cell = VALUE_IS_BOOLEAN header_values"
    by (simp add: type_def true_cell_def header_values_def)
  then have k: "type header_values true_cell \<in> set (kinds header_values) \<and>
      type header_values true_cell \<noteq> VALUE_IS_NULL header_values \<and>
      type header_values true_cell \<noteq> VALUE_IS_ARRAY header_values"
    by (simp add: kinds_mem) (simp add: header_values_def)
  note inst = addElement_promotes_null_only [OF h, of _ example_arena example_store]
  note null = inst [of null_cell, THEN conjunct1, rule_format, OF n]
  from null
  have 1: "VariantData_addElement example_arena header_values null_cell example_store =
     (8192, with_collection \<lparr>head = 8192, tail = 8192\<rparr> (toArray header_values null_cell),
      example_store\<lparr>slot_mem := example_memory(8192 := new_slot),
        resources := \<lparr>free_slot = 8208, slots_left = 3, free_text = 16384\<rparr>\<rparr>)"
    by (simp add: example_alloc)
  have c: "with_collection \<lparr>head = 8192, tail = 8192\<rparr> (toArray header_values null_cell) =
      collection_cell 0x40 8192 8192"
    by (simp add: with_collection_def toArray_def setType_def setContent_def null_cell_def
        collection_cell_def header_values_def zero_content_def empty_collection_def)
  from 1 have 2: "VariantData_addElement example_arena header_values null_cell example_store =
     (8192, collection_cell 0x40 8192 8192,
      example_store\<lparr>slot_mem := example_memory(8192 := new_slot),
        resources := \<lparr>free_slot = 8208, slots_left = 3, free_text = 16384\<rparr>\<rparr>)"
    by (simp only: c)
  have fresh: "fst (allocVariant example_arena example_store) \<noteq> nullptr \<and>
      next_slot (slot_mem (snd (allocVariant example_arena example_store))
        (fst (allocVariant example_arena example_store))) = nullptr"
    by (simp add: example_alloc new_slot_def)
  from null [THEN conjunct2, THEN conjunct2, THEN conjunct2, THEN conjunct2,
      THEN conjunct2, THEN conjunct2, THEN conjunct2, THEN conjunct2, THEN conjunct2,
      THEN conjunct2, rule_format, OF fresh, THEN conjunct2]
  have 3: "CollectionData_size (example_memory(8192 := new_slot))
     (asCollection (content (collection_cell 0x40 8192 8192))) = Some 1"
    by (simp add: 2)
  from inst [of true_cell] k
  have 4: "VariantData_addElement example_arena header_values true_cell example_store =
     (nullptr, true_cell, example_store)"
    by blast
  from h n 1 2 3 k b 4 show ?thesis
    by blast
qed

subsection \<open>Members by key\<close>

text \<open>
  C8, as the code has it. With a null key \<^verbatim>\<open>getOrAddMember\<close> returns the null reference
  and changes neither the cell nor the arena; in particular a Null cell stays Null. A key
  that is not null, the empty text included, is not rejected: a Null cell is made an
  object first, and the result is that of the lookup or insertion in its collection.
\<close>

theorem getOrAddMember_null_key:
  "VariantData_getOrAddMember member_of K None v s = Some (nullptr, v, s) \<and>
   (flags_layout K \<and> isNull K v \<and> member_of text empty_collection s = Some (p, c', s') \<longrightarrow>
      VariantData_getOrAddMember member_of K (Some text) v s =
        Some (p, with_collection c' (toObject K v), s') \<and>
      type K (with_collection c' (toObject K v)) = VALUE_IS_OBJECT K)"
proof (intro conjI impI)
  show "VariantData_getOrAddMember member_of K None v s = Some (nullptr, v, s)"
    by (simp add: VariantData_getOrAddMember_def)
  assume a: "flags_layout K \<and> isNull K v \<and> member_of text empty_collection s = Some (p, c', s')"
  then show "VariantData_getOrAddMember member_of K (Some text) v s =
        Some (p, with_collection c' (toObject K v), s')"
    by (simp add: VariantData_getOrAddMember_def)
  from a show "type K (with_collection c' (toObject K v)) = VALUE_IS_OBJECT K"
    by (simp add: type_toObject)
qed

lemma example_get_empty:
  "CollectionData_get T m empty_collection k = Some nullptr"
proof -
  have "slot_chain m (head empty_collection) []"
    by (simp add: empty_collection_def)
  from CollectionData_get_chain [OF this, of T k] show ?thesis
    by (simp add: first_match_def)
qed

lemma example_member_of_empty_key:
  "CollectionData_getOrAddMember example_arena header_values [] empty_collection example_store =
     Some (8192, \<lparr>head = 8192, tail = 8192\<rparr>,
       example_store\<lparr>
         slot_mem := example_memory(8192 := \<lparr>data = keyed_cell, next_slot = nullptr, key = 16384\<rparr>),
         text_mem := example_text(16384 := []),
         resources := \<lparr>free_slot = 8208, slots_left = 3, free_text = 16393\<rparr>\<rparr>)"
proof -
  define s1 where "s1 = example_store\<lparr>slot_mem := example_memory(8192 := new_slot),
        resources := \<lparr>free_slot = 8208, slots_left = 3, free_text = 16384\<rparr>\<rparr>"
  define s2 where "s2 = s1\<lparr>text_mem := example_text(16384 := []),
        resources := \<lparr>free_slot = 8208, slots_left = 3, free_text = 16393\<rparr>\<rparr>"
  have alloc: "allocVariant example_arena example_store = (8192, s1)"
    by (simp add: example_alloc s1_def)
  have save: "saveString example_arena [] s1 = (16384, s2)"
    by (simp add: example_arena_def example_saveString_def s1_def s2_def example_store_def)
  have slot: "slot_mem s2 = example_memory(8192 := new_slot)"
    by (simp add: s2_def s1_def)
  have keyed: "new_slot\<lparr>key := 16384,
      data := (data new_slot)\<lparr>flags := flags (data new_slot) OR OWNED_KEY_BIT header_values\<rparr>\<rparr> =
      \<lparr>data = keyed_cell, next_slot = nullptr, key = 16384\<rparr>"
    by (simp add: new_slot_def null_cell_def keyed_cell_def header_values_def)
  have "CollectionData_getOrAddMember example_arena header_values [] empty_collection example_store =
      Some (8192, \<lparr>head = 8192, tail = 8192\<rparr>,
        s2\<lparr>slot_mem := example_memory(8192 := \<lparr>data = keyed_cell, next_slot = nullptr, key = 16384\<rparr>)\<rparr>)"
    by (simp add: CollectionData_getOrAddMember_def example_get_empty alloc save slot keyed
        CollectionData_add_empty)
  then show ?thesis
    by (simp add: s2_def s1_def)
qed

theorem getOrAddMember_null_key_witness:
  "flags_layout header_values \<and> isNull header_values null_cell \<and>
   VariantData_getOrAddMember (CollectionData_getOrAddMember example_arena header_values)
     header_values None null_cell example_store = Some (nullptr, null_cell, example_store) \<and>
   VariantData_getOrAddMember (CollectionData_getOrAddMember example_arena header_values)
     header_values (Some ''x'') null_cell
     (example_store\<lparr>resources := \<lparr>free_slot = 8192, slots_left = 0, free_text = 16384\<rparr>\<rparr>) =
     Some (nullptr, with_collection empty_collection (toObject header_values null_cell),
       example_store\<lparr>resources := \<lparr>free_slot = 8192, slots_left = 0, free_text = 16384\<rparr>\<rparr>)"
proof -
  note h = flags_layout_header_values
  have n: "isNull header_values null_cell"
    by (simp add: isNull_def type_def null_cell_def header_values_def)
  let ?full = "example_store\<lparr>resources := \<lparr>free_slot = 8192, slots_left = 0, free_text = 16384\<rparr>\<rparr>"
  have m: "CollectionData_getOrAddMember example_arena header_values ''x'' empty_collection ?full =
      Some (nullptr, empty_collection, ?full)"
    by (simp add: CollectionData_getOrAddMember_def example_get_empty example_arena_def
        example_allocVariant_def)
  note inst = getOrAddMember_null_key [of "CollectionData_getOrAddMember example_arena header_values"
      header_values null_cell _ "''x''" nullptr empty_collection]
  from inst [of example_store]
  have 1: "VariantData_getOrAddMember (CollectionData_getOrAddMember example_arena header_values)
     header_values None null_cell example_store = Some (nullptr, null_cell, example_store)"
    by blast
  from inst [of ?full ?full] h n m
  have 2: "VariantData_getOrAddMember (CollectionData_getOrAddMember example_arena header_values)
     header_values (Some ''x'') null_cell ?full =
     Some (nullptr, with_collection empty_collection (toObject header_values null_cell), ?full)"
    by blast
  from h n 1 2 show ?thesis
    by blast
qed

theorem getOrAddMember_empty_key_counterexample:
  "VariantData_getOrAddMember (CollectionData_getOrAddMember example_arena header_values)
     header_values (Some []) null_cell example_store =
     Some (8192,
       \<lparr>content = zero_content\<lparr>asCollection := \<lparr>head = 8192, tail = 8192\<rparr>\<rparr>, flags = 0x20\<rparr>,
       example_store\<lparr>
         slot_mem := example_memory(8192 := \<lparr>data = keyed_cell, next_slot = nullptr, key = 16384\<rparr>),
         text_mem := example_text(16384 := []),
         resources := \<lparr>free_slot = 8208, slots_left = 3, free_text = 16393\<rparr>\<rparr>) \<and>
   VariantData_getOrAddMember (CollectionData_getOrAddMember example_arena header_values)
     header_values (Some []) null_cell example_store \<noteq> Some (nullptr, null_cell, example_store)"
proof -
  have n: "isNull header_values null_cell"
    by (simp add: isNull_def type_def null_cell_def header_values_def)
  have c: "with_collection \<lparr>head = 8192, tail = 8192\<rparr> (toObject header_values null_cell) =
      \<lparr>content = zero_content\<lparr>asCollection := \<lparr>head = 8192, tail = 8192\<rparr>\<rparr>, flags = 0x20\<rparr>"
    by (simp add: with_collection_def toObject_def setContent_def setType_def null_cell_def
        header_values_def)
  from n c show ?thesis
    by (simp add: VariantData_getOrAddMember_def example_member_of_empty_key)
qed

subsection \<open>Copying from a null source\<close>

lemma slot_chain_same_links:
  assumes "\<forall>b \<in> set xs. next_slot (m' b) = next_slot (m b)"
  shows "slot_chain m' q xs = slot_chain m q xs"
  using assms by (induction xs arbitrary: q) simp_all

lemma release_loop_chain:
  "slot_chain (slot_mem s) p xs \<Longrightarrow> links_kept X xs s \<Longrightarrow>
   release_loop X p s = release_slots X xs s"
proof (induction xs arbitrary: p s)
  case Nil
  then show ?case
    by (subst release_loop.simps) simp
next
  case (Cons a as)
  from Cons.prems(1) have p: "p = a" "a \<noteq> nullptr"
    and rest: "slot_chain (slot_mem s) (next_slot (slot_mem s a)) as"
    by simp_all
  show ?case
  proof (cases "slotRelease X a s")
    case None
    with p show ?thesis
      by (subst release_loop.simps) simp
  next
    case (Some s1)
    with Cons.prems(2)
    have links: "\<forall>b \<in> set (a # as). next_slot (slot_mem s1 b) = next_slot (slot_mem s b)"
      and kept: "links_kept X as s1"
      by simp_all
    from links have here: "next_slot (slot_mem s1 a) = next_slot (slot_mem s a)"
      and there: "\<forall>b \<in> set as. next_slot (slot_mem s1 b) = next_slot (slot_mem s b)"
      by simp_all
    from rest have "slot_chain (slot_mem s1) (next_slot (slot_mem s1 a)) as"
      by (simp only: here slot_chain_same_links [OF there])
    from Cons.IH [OF this kept]
    have "release_loop X (next_slot (slot_mem s1 a)) s1 = release_slots X as s1" .
    with p Some show ?thesis
      by (subst release_loop.simps) simp
  qed
qed

lemma isNull_setNull:
  assumes "flags_layout K"
  shows "isNull K (setNull K v)"
  using type_setType [OF assms kinds_mem(1), of v] by (simp add: isNull_def setNull_def)

text \<open>
  C9. \<^verbatim>\<open>copyFrom\<close> with a null source first releases the destination and then makes it
  Null: it returns exactly when \<^verbatim>\<open>release\<close> does, its result is then true, the cell is
  the old cell with the kind Null, and the arena is in the state in which \<^verbatim>\<open>release\<close>
  left it. \<^verbatim>\<open>release\<close> returns on every cell that is not a collection, after one call
  of \<^verbatim>\<open>dereferenceString\<close> when the cell owns its string. On a collection whose chain
  of slots is \<open>xs\<close> it leaves the arena as the calls of \<^verbatim>\<open>slotRelease\<close> on the slots
  of \<open>xs\<close> leave it, made one after the other in the order of the chain, and it returns
  exactly when all of them do; this needs of \<^verbatim>\<open>slotRelease\<close> only that it leaves the
  links of this chain alone. \<^verbatim>\<open>variantCopyFrom\<close> with a null destination returns false
  and changes nothing.
\<close>

theorem copyFrom_null_source:
  "VariantData_copyFrom X K None v s =
     map_option (\<lambda>s'. (True, setNull K v, s')) (release X K v s) \<and>
   (flags_layout K \<longrightarrow> isNull K (setNull K v)) \<and>
   (\<not> isCollection K v \<longrightarrow>
      release X K v s =
        Some (if flags v AND OWNED_VALUE_BIT K \<noteq> 0
              then dereferenceString X (asString (content v) + data_offset X) s else s)) \<and>
   (isCollection K v \<and>
    slot_chain
      (slot_mem (if flags v AND OWNED_VALUE_BIT K \<noteq> 0
                 then dereferenceString X (asString (content v) + data_offset X) s else s))
      (head (asCollection (content v))) xs \<and>
    links_kept X xs
      (if flags v AND OWNED_VALUE_BIT K \<noteq> 0
       then dereferenceString X (asString (content v) + data_offset X) s else s) \<longrightarrow>
      release X K v s =
        release_slots X xs
          (if flags v AND OWNED_VALUE_BIT K \<noteq> 0
           then dereferenceString X (asString (content v) + data_offset X) s else s) \<and>
      VariantData_copyFrom X K None v s =
        map_option (\<lambda>s'. (True, setNull K v, s'))
          (release_slots X xs
             (if flags v AND OWNED_VALUE_BIT K \<noteq> 0
              then dereferenceString X (asString (content v) + data_offset X) s else s))) \<and>
   variantCopyFrom X K None src s = Some (False, None, s)"
proof -
  define s1 where "s1 = (if flags v AND OWNED_VALUE_BIT K \<noteq> 0
      then dereferenceString X (asString (content v) + data_offset X) s else s)"
  have eq: "VariantData_copyFrom X K None v s =
     map_option (\<lambda>s'. (True, setNull K v, s')) (release X K v s)"
    by (cases "release X K v s") (simp_all add: VariantData_copyFrom_def)
  have null: "flags_layout K \<longrightarrow> isNull K (setNull K v)"
    by (simp add: isNull_setNull)
  have scalar: "\<not> isCollection K v \<longrightarrow> release X K v s = Some s1"
    by (simp add: release_def VariantData_asCollection_def s1_def)
  have coll: "isCollection K v \<and> slot_chain (slot_mem s1) (head (asCollection (content v))) xs \<and>
      links_kept X xs s1 \<longrightarrow>
      release X K v s = release_slots X xs s1 \<and>
      VariantData_copyFrom X K None v s =
        map_option (\<lambda>s'. (True, setNull K v, s')) (release_slots X xs s1)"
  proof
    assume a: "isCollection K v \<and> slot_chain (slot_mem s1) (head (asCollection (content v))) xs \<and>
      links_kept X xs s1"
    then have "release_loop X (head (asCollection (content v))) s1 = release_slots X xs s1"
      by (simp add: release_loop_chain)
    with a have r: "release X K v s = release_slots X xs s1"
      by (simp add: release_def VariantData_asCollection_def s1_def)
    from eq r show "release X K v s = release_slots X xs s1 \<and>
      VariantData_copyFrom X K None v s =
        map_option (\<lambda>s'. (True, setNull K v, s')) (release_slots X xs s1)"
      by simp
  qed
  have wrapper: "variantCopyFrom X K None src s = Some (False, None, s)"
    by (simp add: variantCopyFrom_def)
  from eq null scalar coll wrapper show ?thesis
    unfolding s1_def by (intro conjI)
qed

lemma example_released:
  "release_slots example_arena [4096, 4112] example_store =
     Some (example_store\<lparr>slot_mem := example_memory
       (4096 := (member_slot 100 1 4112)\<lparr>data := (integer_cell 1)\<lparr>flags := 0\<rparr>\<rparr>,
        4112 := (member_slot 200 2 nullptr)\<lparr>data := (integer_cell 2)\<lparr>flags := 0\<rparr>\<rparr>)\<rparr>)"
  by (simp add: example_arena_def example_slotRelease_def example_store_def
      example_memory_slots member_slot_def integer_cell_def setNull_def setType_def
      header_values_def)

theorem copyFrom_null_source_witness:
  "flags_layout header_values \<and>
   \<not> isCollection header_values owned_cell \<and>
   VariantData_copyFrom example_arena header_values None owned_cell example_store =
     Some (True, \<lparr>content = zero_content\<lparr>asString := 16384\<rparr>, flags = 0x00\<rparr>, example_store) \<and>
   isCollection header_values (collection_cell 0x40 4096 4112) \<and>
   slot_chain (slot_mem example_store)
     (head (asCollection (content (collection_cell 0x40 4096 4112)))) [4096, 4112] \<and>
   links_kept example_arena [4096, 4112] example_store \<and>
   VariantData_copyFrom example_arena header_values None (collection_cell 0x40 4096 4112)
     example_store =
     Some (True, collection_cell 0x00 4096 4112,
       example_store\<lparr>slot_mem := example_memory
         (4096 := (member_slot 100 1 4112)\<lparr>data := (integer_cell 1)\<lparr>flags := 0\<rparr>\<rparr>,
          4112 := (member_slot 200 2 nullptr)\<lparr>data := (integer_cell 2)\<lparr>flags := 0\<rparr>\<rparr>)\<rparr>)"
proof -
  note h = flags_layout_header_values
  note inst = copyFrom_null_source [of example_arena header_values _ example_store]
  have o: "\<not> isCollection header_values owned_cell"
    by (simp add: isCollection_def owned_cell_def header_values_def)
  have r: "(if flags owned_cell AND OWNED_VALUE_BIT header_values \<noteq> 0
      then dereferenceString example_arena
        (asString (content owned_cell) + data_offset example_arena) example_store
      else example_store) = example_store"
    by (simp add: example_arena_def)
  have n: "setNull header_values owned_cell =
      \<lparr>content = zero_content\<lparr>asString := 16384\<rparr>, flags = 0x00\<rparr>"
    by (simp add: setNull_def setType_def owned_cell_def header_values_def)
  from inst [of owned_cell] o
  have "VariantData_copyFrom example_arena header_values None owned_cell example_store =
      map_option (\<lambda>s'. (True, setNull header_values owned_cell, s')) (Some example_store)"
    by (simp only: r) simp
  then have 1: "VariantData_copyFrom example_arena header_values None owned_cell example_store =
     Some (True, \<lparr>content = zero_content\<lparr>asString := 16384\<rparr>, flags = 0x00\<rparr>, example_store)"
    by (simp add: n)
  have c: "isCollection header_values (collection_cell 0x40 4096 4112)"
    by (simp add: isCollection_def collection_cell_def header_values_def)
  have q: "(if flags (collection_cell 0x40 4096 4112) AND OWNED_VALUE_BIT header_values \<noteq> 0
      then dereferenceString example_arena
        (asString (content (collection_cell 0x40 4096 4112)) + data_offset example_arena)
        example_store
      else example_store) = example_store"
    by (simp add: example_arena_def)
  have ch: "slot_chain (slot_mem example_store)
     (head (asCollection (content (collection_cell 0x40 4096 4112)))) [4096, 4112]"
    using example_chains(1)
    by (simp add: example_store_def collection_cell_def object_at_def)
  have k: "links_kept example_arena [4096, 4112] example_store"
    by (simp add: example_arena_def example_slotRelease_def)
  have m: "setNull header_values (collection_cell 0x40 4096 4112) =
      collection_cell 0x00 4096 4112"
    by (simp add: setNull_def setType_def collection_cell_def header_values_def)
  note coll = inst [of "collection_cell 0x40 4096 4112" "[4096, 4112]", THEN conjunct2,
      THEN conjunct2, THEN conjunct2, THEN conjunct1, unfolded q, rule_format]
  have "VariantData_copyFrom example_arena header_values None
      (collection_cell 0x40 4096 4112) example_store =
      map_option (\<lambda>s'. (True, setNull header_values (collection_cell 0x40 4096 4112), s'))
        (release_slots example_arena [4096, 4112] example_store)"
    by (rule coll [THEN conjunct2]) (intro conjI c ch k)
  then have 2: "VariantData_copyFrom example_arena header_values None
      (collection_cell 0x40 4096 4112) example_store =
     Some (True, collection_cell 0x00 4096 4112,
       example_store\<lparr>slot_mem := example_memory
         (4096 := (member_slot 100 1 4112)\<lparr>data := (integer_cell 1)\<lparr>flags := 0\<rparr>\<rparr>,
          4112 := (member_slot 200 2 nullptr)\<lparr>data := (integer_cell 2)\<lparr>flags := 0\<rparr>\<rparr>)\<rparr>)"
    by (simp only: example_released m) simp
  from h o 1 c ch k 2 show ?thesis
    by (intro conjI)
qed

subsection \<open>Reading a string cell as a number\<close>

lemma string_kinds_apart:
  assumes "flags_layout K"
  shows "VALUE_IS_LINKED_STRING K \<noteq> VALUE_IS_BOOLEAN K"
    "VALUE_IS_LINKED_STRING K \<noteq> VALUE_IS_UNSIGNED_INTEGER K"
    "VALUE_IS_LINKED_STRING K \<noteq> VALUE_IS_SIGNED_INTEGER K"
    "VALUE_IS_LINKED_STRING K \<noteq> VALUE_IS_OWNED_STRING K"
    "VALUE_IS_OWNED_STRING K \<noteq> VALUE_IS_BOOLEAN K"
    "VALUE_IS_OWNED_STRING K \<noteq> VALUE_IS_UNSIGNED_INTEGER K"
    "VALUE_IS_OWNED_STRING K \<noteq> VALUE_IS_SIGNED_INTEGER K"
  using kinds_switch_distinct [OF assms] by (auto simp: kinds_def)

lemma string_accessors:
  assumes "flags_layout K"
  shows "type K v = VALUE_IS_LINKED_STRING K \<Longrightarrow>
      VariantData_asIntegral N K T off v = parseNumber N (T (asString (content v)))"
    and "type K v = VALUE_IS_LINKED_STRING K \<Longrightarrow>
      VariantData_asFloat N K T off v = parseNumber N (T (asString (content v) + off))"
    and "type K v = VALUE_IS_OWNED_STRING K \<Longrightarrow>
      VariantData_asIntegral N K T off v = parseNumber N (T (asString (content v) + off))"
    and "type K v = VALUE_IS_OWNED_STRING K \<Longrightarrow>
      VariantData_asFloat N K T off v = parseNumber N (T (asString (content v) + off))"
  using string_kinds_apart [OF assms]
  by (simp_all add: VariantData_asIntegral_def VariantData_asFloat_def)

text \<open>
  C5 at a linked string cell. The text of the cell is \<open>1234567890\<close>. \<^verbatim>\<open>asIntegral\<close>
  parses this text. \<^verbatim>\<open>asFloat\<close> takes the pointer to the text for a pointer to a
  \<^verbatim>\<open>StringNode\<close> and parses what lies at its member \<^verbatim>\<open>data\<close>, 8 bytes into the text:
  \<open>90\<close>.
\<close>

theorem asFloat_linked_string_misread:
  "isString header_values digits_cell \<and>
   type header_values digits_cell = VALUE_IS_LINKED_STRING header_values \<and>
   digits_text (asString (content digits_cell)) = ''1234567890'' \<and>
   parseNumber example_numbers ''1234567890'' = 1234567890 \<and>
   VariantData_asIntegral example_numbers header_values digits_text 8 digits_cell = 1234567890 \<and>
   VariantData_asFloat example_numbers header_values digits_text 8 digits_cell = 90"
proof -
  have t: "type header_values digits_cell = VALUE_IS_LINKED_STRING header_values"
    by (simp add: type_def digits_cell_def header_values_def)
  have p: "asString (content digits_cell) = 20480"
    by (simp add: digits_cell_def)
  have d: "digits_text 20480 = ''1234567890''" "digits_text (20480 + 8) = ''90''"
    by (simp_all add: digits_text_def)
  have v: "parseNumber example_numbers ''1234567890'' = 1234567890"
    "parseNumber example_numbers ''90'' = 90"
    by (simp_all add: example_numbers_def)
  from t have s: "isString header_values digits_cell"
    by (simp add: isString_def)
  from string_accessors(1,2) [OF flags_layout_header_values t, of example_numbers digits_text 8]
  have "VariantData_asIntegral example_numbers header_values digits_text 8 digits_cell = 1234567890"
    and "VariantData_asFloat example_numbers header_values digits_text 8 digits_cell = 90"
    by (simp_all only: p d v)
  with s t p d v show ?thesis
    by simp
qed

end
